theory Spec2Isabelle
  imports Main
begin

section \<open>Bytes and the SSH wire encoding\<close>

text \<open>
  A Go \<^verbatim>\<open>string\<close> and a Go \<^verbatim>\<open>[]byte\<close> are both sequences of 8-bit bytes, and
  \<^verbatim>\<open>sshpiper.go\<close> converts freely between them (\<^verbatim>\<open>string(algoBytes)\<close>,
  \<^verbatim>\<open>[]byte(upKey.Type())\<close>). Both are modelled as lists of \<^typ>\<open>char\<close>, which is
  an 8-bit byte in HOL.
\<close>

type_synonym bytes = "char list"

text \<open>
  Modelled from the spec: \<^verbatim>\<open>marshalString\<close>, \<^verbatim>\<open>stringLength\<close>, \<^verbatim>\<open>parseString\<close>,
  \<^verbatim>\<open>parseSignature\<close>, \<^verbatim>\<open>Marshal\<close> and \<^verbatim>\<open>Unmarshal\<close> belong to the SSH library
  part of the package and are not in \<^verbatim>\<open>sshpiper.go\<close>. The spec fixes the wire
  format as standard SSH (RFC 4251): a string is a big-endian \<^verbatim>\<open>uint32\<close> length
  followed by that many bytes, a boolean is one byte, a message starts with its type
  byte and a field tagged \<^verbatim>\<open>rest\<close> takes the remaining bytes unframed.
\<close>

definition uint32_be :: "nat \<Rightarrow> bytes" where
  "uint32_be n =
     [char_of (n div 16777216), char_of (n div 65536), char_of (n div 256), char_of n]"

definition be_uint32 :: "bytes \<Rightarrow> nat" where
  "be_uint32 bs =
     of_char (bs ! 0) * 16777216 + of_char (bs ! 1) * 65536
       + of_char (bs ! 2) * 256 + of_char (bs ! 3)"

definition stringLength :: "nat \<Rightarrow> nat" where
  "stringLength n = 4 + n"

definition marshalString :: "bytes \<Rightarrow> bytes" where
  "marshalString s = uint32_be (length s) @ s"

definition parseString :: "bytes \<Rightarrow> (bytes \<times> bytes) option" where
  "parseString inp =
     (if length inp < 4 then None
      else let n = be_uint32 (take 4 inp); body = drop 4 inp in
        if length body < n then None
        else Some (take n body, drop n body))"

definition marshalBool :: "bool \<Rightarrow> bytes" where
  "marshalBool b = [if b then CHR 0x01 else CHR 0x00]"

subsection \<open>Message numbers and names\<close>

definition msgServiceRequest :: char where "msgServiceRequest = CHR 0x05"
definition msgServiceAccept :: char where "msgServiceAccept = CHR 0x06"
definition msgNewKeys :: char where "msgNewKeys = CHR 0x15"
definition msgUserAuthRequest :: char where "msgUserAuthRequest = CHR 0x32"
definition msgUserAuthFailure :: char where "msgUserAuthFailure = CHR 0x33"
definition msgUserAuthSuccess :: char where "msgUserAuthSuccess = CHR 0x34"
definition msgUserAuthPubKeyOk :: char where "msgUserAuthPubKeyOk = CHR 0x3C"

definition serviceUserAuth :: string where "serviceUserAuth = ''ssh-userauth''"
definition serviceSSH :: string where "serviceSSH = ''ssh-connection''"

section \<open>Data model\<close>

datatype error =
    Panic string
  | ParseError char
  | UnexpectedMessage char char
  | NotPublicKeyMsg
  | AlgoNotAccepted string
  | UnknownService string
  | ServiceBeforeAuth string
  | NoHostKeys
  | ChallengeFailed
  | EOF
  | WriteFailed
  | External string

record Signature =
  Format :: string
  Blob :: bytes

text \<open>
  \<^verbatim>\<open>PublicKey\<close> and \<^verbatim>\<open>Signer\<close> are Go interfaces: a value carries its methods.
  \<^verbatim>\<open>Verify\<close> returns an error in Go; here it returns \<open>True\<close> for the nil error.
  \<^verbatim>\<open>Sign\<close> takes a random source in Go; here the signer's function stands for one
  run of it.
\<close>

record PublicKey =
  Type :: string
  Marshal :: bytes
  Verify :: "bytes \<Rightarrow> Signature \<Rightarrow> bool"

record Signer =
  PublicKey :: PublicKey
  Sign :: "bytes \<Rightarrow> error + Signature"

record userAuthRequestMsg =
  User :: string
  Service :: string
  Method :: string
  Payload :: bytes

record publickeyAuthMsg =
  pkUser :: string
  pkService :: string
  pkMethod :: string
  HasSig :: bool
  Algoname :: string
  PubKey :: bytes
  Sig :: bytes

record userAuthPubKeyOkMsg =
  okAlgo :: string
  okPubKey :: bytes

subsection \<open>Marshalling of the messages the proxy builds\<close>

definition Marshal_Signature :: "Signature \<Rightarrow> bytes" where
  "Marshal_Signature sg = marshalString (Format sg) @ marshalString (Blob sg)"

definition Marshal_userAuthRequestMsg :: "userAuthRequestMsg \<Rightarrow> bytes" where
  "Marshal_userAuthRequestMsg m =
     msgUserAuthRequest # marshalString (User m) @ marshalString (Service m)
       @ marshalString (Method m) @ Payload m"

definition Marshal_publickeyAuthMsg :: "publickeyAuthMsg \<Rightarrow> bytes" where
  "Marshal_publickeyAuthMsg m =
     msgUserAuthRequest # marshalString (pkUser m) @ marshalString (pkService m)
       @ marshalString (pkMethod m) @ marshalBool (HasSig m)
       @ marshalString (Algoname m) @ marshalString (PubKey m) @ Sig m"

definition Marshal_userAuthPubKeyOkMsg :: "userAuthPubKeyOkMsg \<Rightarrow> bytes" where
  "Marshal_userAuthPubKeyOkMsg m =
     msgUserAuthPubKeyOk # marshalString (okAlgo m) @ marshalString (okPubKey m)"

text \<open>\<^verbatim>\<open>userAuthFailureMsg{Methods: methods}\<close>: a name-list and the partial-success flag.\<close>

fun joinNames :: "string list \<Rightarrow> string" where
  "joinNames [] = []"
| "joinNames [n] = n"
| "joinNames (n # ns) = n @ '','' @ joinNames ns"

definition Marshal_userAuthFailureMsg :: "string list \<Rightarrow> bool \<Rightarrow> bytes" where
  "Marshal_userAuthFailureMsg methods partial =
     msgUserAuthFailure # marshalString (joinNames methods) @ marshalBool partial"

definition Marshal_serviceRequestMsg :: "string \<Rightarrow> bytes" where
  "Marshal_serviceRequestMsg svc = msgServiceRequest # marshalString svc"

definition Marshal_serviceAcceptMsg :: "string \<Rightarrow> bytes" where
  "Marshal_serviceAcceptMsg svc = msgServiceAccept # marshalString svc"

text \<open>
  \<^verbatim>\<open>Unmarshal(data, &msg)\<close> fills the fields of \<open>msg\<close> one after the other and
  stops at the first that does not parse: the fields set before stay set. The result
  is the error, if any, and the message as it was left.
\<close>

definition Unmarshal_userAuthRequestMsg ::
  "bytes \<Rightarrow> userAuthRequestMsg \<Rightarrow> error option \<times> userAuthRequestMsg" where
  "Unmarshal_userAuthRequestMsg data m =
     (case data of
        [] \<Rightarrow> (Some (ParseError msgUserAuthRequest), m)
      | t # d0 \<Rightarrow>
          if t \<noteq> msgUserAuthRequest then (Some (UnexpectedMessage msgUserAuthRequest t), m)
          else (case parseString d0 of
            None \<Rightarrow> (Some (ParseError msgUserAuthRequest), m)
          | Some (u, d1) \<Rightarrow>
              let m1 = m\<lparr>User := u\<rparr> in
              (case parseString d1 of
                 None \<Rightarrow> (Some (ParseError msgUserAuthRequest), m1)
               | Some (s, d2) \<Rightarrow>
                   let m2 = m1\<lparr>Service := s\<rparr> in
                   (case parseString d2 of
                      None \<Rightarrow> (Some (ParseError msgUserAuthRequest), m2)
                    | Some (me, d3) \<Rightarrow> (None, m2\<lparr>Method := me, Payload := d3\<rparr>)))))"

definition Unmarshal_serviceMsg :: "char \<Rightarrow> bytes \<Rightarrow> error + string" where
  "Unmarshal_serviceMsg expected data =
     (case data of
        [] \<Rightarrow> Inl (ParseError expected)
      | t # d0 \<Rightarrow>
          if t \<noteq> expected then Inl (UnexpectedMessage expected t)
          else (case parseString d0 of
            None \<Rightarrow> Inl (ParseError expected)
          | Some (s, d1) \<Rightarrow> if d1 \<noteq> [] then Inl (ParseError expected) else Inr s))"

definition parseSignatureBody :: "bytes \<Rightarrow> (Signature \<times> bytes) option" where
  "parseSignatureBody inp =
     (case parseString inp of
        None \<Rightarrow> None
      | Some (format, in1) \<Rightarrow>
          (case parseString in1 of
             None \<Rightarrow> None
           | Some (blob, in2) \<Rightarrow> Some (\<lparr>Format = format, Blob = blob\<rparr>, in2)))"

definition parseSignature :: "bytes \<Rightarrow> (Signature \<times> bytes) option" where
  "parseSignature inp =
     (case parseString inp of
        None \<Rightarrow> None
      | Some (sigBytes, rest) \<Rightarrow>
          (case parseSignatureBody sigBytes of
             None \<Rightarrow> None
           | Some (out, trailing) \<Rightarrow> if trailing \<noteq> [] then None else Some (out, rest)))"

text \<open>
  Modelled from the spec: \<^verbatim>\<open>buildDataSignedForAuth\<close> is not in \<^verbatim>\<open>sshpiper.go\<close>. The
  spec gives the signed blob as
  \<^verbatim>\<open>session_id || 0x32 || user || service || method || 0x01 || algo || pubkey_blob\<close>,
  each variable-length field in the string encoding; of the request only the user,
  the service and the method enter the blob.
\<close>

definition buildDataSignedForAuth ::
  "bytes \<Rightarrow> userAuthRequestMsg \<Rightarrow> bytes \<Rightarrow> bytes \<Rightarrow> bytes" where
  "buildDataSignedForAuth sessionId req algo pubKey =
     marshalString sessionId @ [msgUserAuthRequest] @ marshalString (User req)
       @ marshalString (Service req) @ marshalString (Method req) @ marshalBool True
       @ marshalString algo @ marshalString pubKey"

section \<open>The configuration and its host keys\<close>

text \<open>
  \<^verbatim>\<open>AddHostKey\<close> walks \<^verbatim>\<open>s.hostKeys\<close> by index; at the first key of the same type it
  stores the new key at that index and returns, and after the loop it appends.
\<close>

function AddHostKey_loop :: "nat \<Rightarrow> Signer list \<Rightarrow> Signer \<Rightarrow> Signer list option" where
  "AddHostKey_loop i hostKeys key =
     (if i < length hostKeys then
        (if Type (PublicKey (hostKeys ! i)) = Type (PublicKey key)
         then Some (hostKeys[i := key])
         else AddHostKey_loop (Suc i) hostKeys key)
      else None)"
  by pat_completeness auto
termination
  by (relation "measure (\<lambda>(i, hostKeys, key). length hostKeys - i)") auto

declare AddHostKey_loop.simps [simp del]

definition AddHostKey_hostKeys :: "Signer list \<Rightarrow> Signer \<Rightarrow> Signer list" where
  "AddHostKey_hostKeys hostKeys key =
     (case AddHostKey_loop 0 hostKeys key of
        Some replaced \<Rightarrow> replaced
      | None \<Rightarrow> hostKeys @ [key])"

section \<open>Connections, callbacks and the library\<close>

text \<open>
  A connection is seen from the proxy: \<open>rx\<close> holds the packets the peer sends, in
  order (reading from an empty queue is the end of the stream), and \<open>wcap\<close> is the
  number of writes that succeed before the connection breaks. \<open>user\<close> and
  \<open>sessionID\<close> are the fields of the same names of the Go \<^verbatim>\<open>connection\<close>.
\<close>

record connection =
  user :: string
  sessionID :: bytes
  rx :: "bytes list"
  wcap :: nat

datatype side = Downstream | Upstream

datatype event =
    Read side bytes
  | Write side bytes
  | VersionExchange side
  | KeyChange side
  | Close side
  | Called_AdditionalChallenge bool "error option"
  | Called_FindUpstream

text \<open>
  The state of a run: the log of what the proxy did so far and the downstream
  connection; from the moment \<^verbatim>\<open>FindUpstream\<close> has returned one, the upstream
  connection too.
\<close>

record dstate =
  log :: "event list"
  downstream :: connection

record pipedConn = dstate +
  upstream :: connection

text \<open>
  The callbacks of \<^verbatim>\<open>SSHPiperConfig\<close>; \<open>None\<close> is the nil func. A callback that
  returns several values returns a tuple. \<^verbatim>\<open>AdditionalChallenge\<close> talks to the
  downstream through the challenge function it is given, so it returns the downstream
  connection as it left it. The embedded \<^verbatim>\<open>Config\<close> plays no part in this file.
\<close>

record SSHPiperConfig =
  hostKeys :: "Signer list"
  AdditionalChallenge :: "(connection \<Rightarrow> (bool \<times> error option) \<times> connection) option"
  FindUpstream :: "(connection \<Rightarrow> connection option \<times> string \<times> error option) option"
  MapPublicKey :: "(connection \<Rightarrow> PublicKey \<Rightarrow> Signer option \<times> error option) option"

definition AddHostKey :: "SSHPiperConfig \<Rightarrow> Signer \<Rightarrow> SSHPiperConfig" where
  "AddHostKey s key = s\<lparr>hostKeys := AddHostKey_hostKeys (hostKeys s) key\<rparr>"

text \<open>
  These functions of the SSH library are called by \<^verbatim>\<open>sshpiper.go\<close> and are not part
  of it: the allow-list of algorithms, the decoder of public keys, the probe
  \<^verbatim>\<open>validateKey\<close> that asks the upstream whether it accepts a key, and the two steps
  of the transport handshake. They are parameters of the model.
\<close>

record sshlib =
  isAcceptableAlgo :: "string \<Rightarrow> bool"
  ParsePublicKey :: "bytes \<Rightarrow> error + PublicKey"
  validateKey :: "PublicKey \<Rightarrow> string \<Rightarrow> connection \<Rightarrow> (bool \<times> error option) \<times> connection"
  exchangeVersions :: "connection \<Rightarrow> error option \<times> connection"
  requestKeyChange :: "connection \<Rightarrow> error option \<times> connection"

subsection \<open>Packets in and out\<close>

definition t_readPacket :: "connection \<Rightarrow> (error + bytes) \<times> connection" where
  "t_readPacket c =
     (case rx c of
        [] \<Rightarrow> (Inl EOF, c)
      | p # ps \<Rightarrow> (Inr p, c\<lparr>rx := ps\<rparr>))"

definition t_writePacket :: "bytes \<Rightarrow> connection \<Rightarrow> error option \<times> connection" where
  "t_writePacket p c =
     (if wcap c = 0 then (Some WriteFailed, c)
      else (None, c\<lparr>wcap := wcap c - 1\<rparr>))"

definition d_readPacket :: "'a dstate_scheme \<Rightarrow> (error + bytes) \<times> 'a dstate_scheme" where
  "d_readPacket s =
     (case t_readPacket (downstream s) of
        (Inl e, c) \<Rightarrow> (Inl e, s\<lparr>downstream := c\<rparr>)
      | (Inr p, c) \<Rightarrow> (Inr p, s\<lparr>downstream := c, log := log s @ [Read Downstream p]\<rparr>))"

definition d_writePacket :: "bytes \<Rightarrow> 'a dstate_scheme \<Rightarrow> error option \<times> 'a dstate_scheme" where
  "d_writePacket p s =
     (case t_writePacket p (downstream s) of
        (Some e, c) \<Rightarrow> (Some e, s\<lparr>downstream := c\<rparr>)
      | (None, c) \<Rightarrow> (None, s\<lparr>downstream := c, log := log s @ [Write Downstream p]\<rparr>))"

definition u_readPacket :: "pipedConn \<Rightarrow> (error + bytes) \<times> pipedConn" where
  "u_readPacket s =
     (case t_readPacket (upstream s) of
        (Inl e, c) \<Rightarrow> (Inl e, s\<lparr>upstream := c\<rparr>)
      | (Inr p, c) \<Rightarrow> (Inr p, s\<lparr>upstream := c, log := log s @ [Read Upstream p]\<rparr>))"

definition u_writePacket :: "bytes \<Rightarrow> pipedConn \<Rightarrow> error option \<times> pipedConn" where
  "u_writePacket p s =
     (case t_writePacket p (upstream s) of
        (Some e, c) \<Rightarrow> (Some e, s\<lparr>upstream := c\<rparr>)
      | (None, c) \<Rightarrow> (None, s\<lparr>upstream := c, log := log s @ [Write Upstream p]\<rparr>))"

section \<open>The authentication relay\<close>

definition noneAuthMsg :: "string \<Rightarrow> userAuthRequestMsg" where
  "noneAuthMsg usr = \<lparr>User = usr, Service = serviceSSH, Method = ''none'', Payload = []\<rparr>"

definition zero_userAuthRequestMsg :: userAuthRequestMsg where
  "zero_userAuthRequestMsg = \<lparr>User = [], Service = [], Method = [], Payload = []\<rparr>"

definition nextAuthMsg ::
  "'a dstate_scheme \<Rightarrow> (error + userAuthRequestMsg) \<times> 'a dstate_scheme" where
  "nextAuthMsg s =
     (case d_readPacket s of
        (Inl e, s1) \<Rightarrow> (Inl e, s1)
      | (Inr packet, s1) \<Rightarrow>
          (case Unmarshal_userAuthRequestMsg packet zero_userAuthRequestMsg of
             (Some e, _) \<Rightarrow> (Inl e, s1)
           | (None, userAuthReq) \<Rightarrow>
               if Service userAuthReq \<noteq> serviceSSH
               then (Inl (UnknownService (Service userAuthReq)), s1)
               else (Inr userAuthReq, s1)))"

text \<open>
  \<^verbatim>\<open>parsePublicKeyMsg\<close> returns the key, whether the request is a query, and the
  signature (nil for a query).
\<close>

definition parsePublicKeyMsg ::
  "sshlib \<Rightarrow> userAuthRequestMsg \<Rightarrow> error + (PublicKey \<times> bool \<times> Signature option)" where
  "parsePublicKeyMsg lib userAuthReq =
     (if Method userAuthReq \<noteq> ''publickey'' then Inl NotPublicKeyMsg
      else (case Payload userAuthReq of
        [] \<Rightarrow> Inl (ParseError msgUserAuthRequest)
      | b # payload1 \<Rightarrow>
          let isQuery = (b = CHR 0x00) in
          (case parseString payload1 of
             None \<Rightarrow> Inl (ParseError msgUserAuthRequest)
           | Some (algo, payload2) \<Rightarrow>
               if \<not> isAcceptableAlgo lib algo then Inl (AlgoNotAccepted algo)
               else (case parseString payload2 of
                 None \<Rightarrow> Inl (ParseError msgUserAuthRequest)
               | Some (pubKeyData, payload3) \<Rightarrow>
                   (case ParsePublicKey lib pubKeyData of
                      Inl e \<Rightarrow> Inl e
                    | Inr pubKey \<Rightarrow>
                        if \<not> isQuery then
                          (case parseSignature payload3 of
                             None \<Rightarrow> Inl (ParseError msgUserAuthRequest)
                           | Some (sg, payload4) \<Rightarrow>
                               if payload4 \<noteq> [] then Inl (ParseError msgUserAuthRequest)
                               else Inr (pubKey, isQuery, Some sg))
                        else Inr (pubKey, isQuery, None))))))"

definition validAndAck ::
  "sshlib \<Rightarrow> string \<Rightarrow> PublicKey \<Rightarrow> PublicKey \<Rightarrow> pipedConn
     \<Rightarrow> (error + userAuthRequestMsg option) \<times> pipedConn" where
  "validAndAck lib usr upKey downKey pipe =
     (case validateKey lib upKey usr (upstream pipe) of
        ((ok, err), u) \<Rightarrow>
          let pipe1 = pipe\<lparr>upstream := u\<rparr> in
          if ok then
            (case d_writePacket
                    (Marshal_userAuthPubKeyOkMsg
                       \<lparr>okAlgo = Type downKey, okPubKey = Marshal downKey\<rparr>) pipe1 of
               (Some e, pipe2) \<Rightarrow> (Inl e, pipe2)
             | (None, pipe2) \<Rightarrow> (Inr None, pipe2))
          else (Inr (Some (noneAuthMsg usr)), pipe1))"

definition checkPublicKey ::
  "sshlib \<Rightarrow> userAuthRequestMsg \<Rightarrow> PublicKey \<Rightarrow> Signature \<Rightarrow> pipedConn
     \<Rightarrow> bool \<times> error option" where
  "checkPublicKey lib msg pubkey sg pipe =
     (if \<not> isAcceptableAlgo lib (Format sg) then (False, None)
      else let signedData =
                 buildDataSignedForAuth (sessionID (downstream pipe)) msg
                   (Type pubkey) (Marshal pubkey) in
        if \<not> Verify pubkey signedData sg then (False, None)
        else (True, None))"

definition signAgain ::
  "string \<Rightarrow> userAuthRequestMsg \<Rightarrow> Signer \<Rightarrow> PublicKey \<Rightarrow> pipedConn
     \<Rightarrow> error + userAuthRequestMsg" where
  "signAgain usr msg signer downKey pipe =
     (let session = sessionID (upstream pipe);
          upKey = PublicKey signer;
          upKeyData = Marshal upKey in
      case Sign signer
             (buildDataSignedForAuth session
                \<lparr>User = usr, Service = serviceSSH, Method = ''publickey'', Payload = []\<rparr>
                (Type upKey) upKeyData) of
        Inl e \<Rightarrow> Inl e
      | Inr sign \<Rightarrow>
          let s = Marshal_Signature sign;
              sg = marshalString s;
              pubkeyMsg = \<lparr>pkUser = usr, pkService = serviceSSH, pkMethod = ''publickey'',
                           HasSig = True, Algoname = Type upKey, PubKey = upKeyData,
                           Sig = sg\<rparr>
          in Inr (snd (Unmarshal_userAuthRequestMsg (Marshal_publickeyAuthMsg pubkeyMsg) msg)))"

text \<open>
  The closure \<^verbatim>\<open>p.processAuthMsg\<close> of \<^verbatim>\<open>NewSSHPiperConn\<close>, with what it captures
  (\<^verbatim>\<open>piper\<close>, \<^verbatim>\<open>mappedUser\<close>, and \<^verbatim>\<open>d\<close> and \<^verbatim>\<open>p\<close> as the state) as arguments. The
  result \<open>Inr None\<close> is the Go \<^verbatim>\<open>(nil, nil)\<close>: nothing to forward. In the signed
  branch \<^verbatim>\<open>ok, err := p.checkPublicKey(...)\<close> declares an \<^verbatim>\<open>err\<close> of the
  \<^verbatim>\<open>else\<close> block, and \<^verbatim>\<open>msg, err = p.signAgain(...)\<close> assigns that one: when
  signing fails, \<^verbatim>\<open>msg\<close> is nil and the \<^verbatim>\<open>err\<close> tested after the block is still
  nil, so the closure returns \<^verbatim>\<open>(nil, nil)\<close>.
\<close>

definition processAuthMsg ::
  "sshlib \<Rightarrow> SSHPiperConfig \<Rightarrow> string \<Rightarrow> userAuthRequestMsg \<Rightarrow> pipedConn
     \<Rightarrow> (error + userAuthRequestMsg option) \<times> pipedConn" where
  "processAuthMsg lib piper mappedUser msg pipe =
     (if Method msg \<noteq> ''publickey'' then (Inr (Some (msg\<lparr>User := mappedUser\<rparr>)), pipe)
      else (case MapPublicKey piper of
        None \<Rightarrow> (Inr (Some (msg\<lparr>User := mappedUser\<rparr>)), pipe)
      | Some mapPublicKey \<Rightarrow>
          let usr = User msg in
          (case parsePublicKeyMsg lib msg of
             Inl e \<Rightarrow> (Inl e, pipe)
           | Inr (downKey, isQuery, sg) \<Rightarrow>
               (case mapPublicKey (downstream pipe) downKey of
                  (_, Some e) \<Rightarrow> (Inr (Some (noneAuthMsg usr)), pipe)
                | (None, None) \<Rightarrow> (Inr (Some (noneAuthMsg usr)), pipe)
                | (Some signer, None) \<Rightarrow>
                    let upKey = PublicKey signer in
                    if isQuery then validAndAck lib mappedUser upKey downKey pipe
                    else (case sg of
                      None \<Rightarrow> (Inl (Panic ''nil pointer dereference''), pipe)
                    | Some sg' \<Rightarrow>
                        (case checkPublicKey lib msg downKey sg' pipe of
                           (_, Some e) \<Rightarrow> (Inl e, pipe)
                         | (False, None) \<Rightarrow> (Inr (Some (noneAuthMsg usr)), pipe)
                         | (True, None) \<Rightarrow>
                             (case signAgain mappedUser msg signer downKey pipe of
                                Inl e \<Rightarrow> (Inr None, pipe)
                              | Inr msg' \<Rightarrow> (Inr (Some msg'), pipe))))))))"

subsection \<open>The relay loop\<close>

definition sendAuthReq :: "pipedConn \<Rightarrow> error option \<times> pipedConn" where
  "sendAuthReq u =
     (case u_writePacket (Marshal_serviceRequestMsg serviceUserAuth) u of
        (Some e, u1) \<Rightarrow> (Some e, u1)
      | (None, u1) \<Rightarrow>
          (case u_readPacket u1 of
             (Inl e, u2) \<Rightarrow> (Some e, u2)
           | (Inr packet, u2) \<Rightarrow>
               (case Unmarshal_serviceMsg msgServiceAccept packet of
                  Inl e \<Rightarrow> (Some e, u2)
                | Inr serviceAccept \<Rightarrow> (None, u2))))"

text \<open>
  One turn of the \<^verbatim>\<open>for\<close> loop of \<^verbatim>\<open>pipeAuth\<close>: \<open>Inl r\<close> when the turn returns \<open>r\<close>
  from \<^verbatim>\<open>pipeAuth\<close> (\<open>None\<close> is the nil error), \<open>Inr m\<close> when the loop goes round with
  the next downstream request \<open>m\<close>. \<^verbatim>\<open>packet[0]\<close> on an empty packet is Go's
  index-out-of-range panic.
\<close>

definition pipeAuth_next ::
  "pipedConn \<Rightarrow> (error option + userAuthRequestMsg) \<times> pipedConn" where
  "pipeAuth_next pipe =
     (case nextAuthMsg pipe of
        (Inl e, pipe1) \<Rightarrow> (Inl (Some e), pipe1)
      | (Inr userAuthMsg, pipe1) \<Rightarrow> (Inr userAuthMsg, pipe1))"

definition pipeAuth_forward ::
  "userAuthRequestMsg \<Rightarrow> pipedConn \<Rightarrow> (error option + userAuthRequestMsg) \<times> pipedConn" where
  "pipeAuth_forward userAuthMsg pipe =
     (case u_writePacket (Marshal_userAuthRequestMsg userAuthMsg) pipe of
        (Some e, pipe1) \<Rightarrow> (Inl (Some e), pipe1)
      | (None, pipe1) \<Rightarrow>
          (case u_readPacket pipe1 of
             (Inl e, pipe2) \<Rightarrow> (Inl (Some e), pipe2)
           | (Inr packet, pipe2) \<Rightarrow>
               (case packet of
                  [] \<Rightarrow> (Inl (Some (Panic ''index out of range'')), pipe2)
                | t # _ \<Rightarrow>
                    let success = (t = msgUserAuthSuccess) in
                    (case d_writePacket packet pipe2 of
                       (Some e, pipe3) \<Rightarrow> (Inl (Some e), pipe3)
                     | (None, pipe3) \<Rightarrow>
                         if success then (Inl None, pipe3) else pipeAuth_next pipe3))))"

definition pipeAuth_turn ::
  "sshlib \<Rightarrow> SSHPiperConfig \<Rightarrow> string \<Rightarrow> userAuthRequestMsg \<Rightarrow> pipedConn
     \<Rightarrow> (error option + userAuthRequestMsg) \<times> pipedConn" where
  "pipeAuth_turn lib piper mappedUser userAuthMsg pipe =
     (case processAuthMsg lib piper mappedUser userAuthMsg pipe of
        (Inl e, pipe1) \<Rightarrow> (Inl (Some e), pipe1)
      | (Inr None, pipe1) \<Rightarrow> pipeAuth_next pipe1
      | (Inr (Some userAuthMsg'), pipe1) \<Rightarrow> pipeAuth_forward userAuthMsg' pipe1)"

text \<open>
  Every turn that goes round has read one packet from the downstream queue, and
  nothing in a turn puts packets back: the loop ends on a finite queue.
\<close>

lemma d_writePacket_rx:
  "d_writePacket p s = (r, s') \<Longrightarrow> rx (downstream s') = rx (downstream s)"
  by (auto simp: d_writePacket_def t_writePacket_def split: if_splits)

lemma u_writePacket_downstream:
  "u_writePacket p s = (r, s') \<Longrightarrow> downstream s' = downstream s"
  by (auto simp: u_writePacket_def t_writePacket_def split: if_splits)

lemma u_readPacket_downstream:
  "u_readPacket s = (r, s') \<Longrightarrow> downstream s' = downstream s"
  by (auto simp: u_readPacket_def t_readPacket_def split: list.splits)

lemma nextAuthMsg_rx:
  "nextAuthMsg s = (Inr m, s') \<Longrightarrow> length (rx (downstream s')) < length (rx (downstream s))"
  by (auto simp: nextAuthMsg_def d_readPacket_def t_readPacket_def
      split: list.splits prod.splits option.splits if_splits)

lemma processAuthMsg_rx:
  "processAuthMsg lib piper mappedUser m s = (r, s') \<Longrightarrow>
     rx (downstream s') = rx (downstream s)"
  by (auto simp: processAuthMsg_def validAndAck_def Let_def d_writePacket_def
      t_writePacket_def split: if_splits option.splits sum.splits prod.splits bool.splits)

lemma pipeAuth_next_rx:
  "pipeAuth_next s = (Inr m, s') \<Longrightarrow> length (rx (downstream s')) < length (rx (downstream s))"
  by (auto simp: pipeAuth_next_def split: prod.splits sum.splits dest: nextAuthMsg_rx)

lemma pipeAuth_forward_rx:
  assumes "pipeAuth_forward m0 s = (Inr m, s')"
  shows "length (rx (downstream s')) < length (rx (downstream s))"
proof -
  from assms obtain s1 s2 s3 packet where
    w: "u_writePacket (Marshal_userAuthRequestMsg m0) s = (None, s1)" and
    r: "u_readPacket s1 = (Inr packet, s2)" and
    d: "d_writePacket packet s2 = (None, s3)" and
    n: "pipeAuth_next s3 = (Inr m, s')"
    by (auto simp: pipeAuth_forward_def Let_def
        split: prod.splits option.splits sum.splits list.splits if_splits)
  have "rx (downstream s3) = rx (downstream s)"
    using u_writePacket_downstream [OF w] u_readPacket_downstream [OF r] d_writePacket_rx [OF d]
    by simp
  with pipeAuth_next_rx [OF n] show ?thesis by simp
qed

lemma pipeAuth_turn_rx:
  assumes "pipeAuth_turn lib piper mappedUser m0 s = (Inr m, s')"
  shows "length (rx (downstream s')) < length (rx (downstream s))"
proof -
  obtain r s1 where p: "processAuthMsg lib piper mappedUser m0 s = (r, s1)"
    by (cases "processAuthMsg lib piper mappedUser m0 s")
  have eq: "rx (downstream s1) = rx (downstream s)"
    by (rule processAuthMsg_rx [OF p])
  from assms p have "pipeAuth_next s1 = (Inr m, s') \<or> (\<exists>m'. pipeAuth_forward m' s1 = (Inr m, s'))"
    by (auto simp: pipeAuth_turn_def split: sum.splits option.splits)
  then show ?thesis
    using eq pipeAuth_next_rx pipeAuth_forward_rx by fastforce
qed

function pipeAuth_loop ::
  "sshlib \<Rightarrow> SSHPiperConfig \<Rightarrow> string \<Rightarrow> userAuthRequestMsg \<Rightarrow> pipedConn
     \<Rightarrow> error option \<times> pipedConn" where
  "pipeAuth_loop lib piper mappedUser userAuthMsg pipe =
     (case pipeAuth_turn lib piper mappedUser userAuthMsg pipe of
        (Inl r, pipe1) \<Rightarrow> (r, pipe1)
      | (Inr userAuthMsg', pipe1) \<Rightarrow> pipeAuth_loop lib piper mappedUser userAuthMsg' pipe1)"
  by pat_completeness auto
termination
  by (relation "measure (\<lambda>(lib, piper, mappedUser, userAuthMsg, pipe).
                    length (rx (downstream pipe)))")
     (auto dest: pipeAuth_turn_rx [OF sym])

declare pipeAuth_loop.simps [simp del]

definition pipeAuth ::
  "sshlib \<Rightarrow> SSHPiperConfig \<Rightarrow> string \<Rightarrow> userAuthRequestMsg \<Rightarrow> pipedConn
     \<Rightarrow> error option \<times> pipedConn" where
  "pipeAuth lib piper mappedUser initUserAuthMsg pipe =
     (case sendAuthReq pipe of
        (Some e, pipe1) \<Rightarrow> (Some e, pipe1)
      | (None, pipe1) \<Rightarrow> pipeAuth_loop lib piper mappedUser initUserAuthMsg pipe1)"

section \<open>The two handshakes\<close>

definition d_exchangeVersions :: "sshlib \<Rightarrow> dstate \<Rightarrow> error option \<times> dstate" where
  "d_exchangeVersions lib s =
     (case exchangeVersions lib (downstream s) of
        (r, c) \<Rightarrow> (r, s\<lparr>downstream := c, log := log s @ [VersionExchange Downstream]\<rparr>))"

definition d_requestKeyChange :: "sshlib \<Rightarrow> dstate \<Rightarrow> error option \<times> dstate" where
  "d_requestKeyChange lib s =
     (case requestKeyChange lib (downstream s) of
        (r, c) \<Rightarrow> (r, s\<lparr>downstream := c, log := log s @ [KeyChange Downstream]\<rparr>))"

definition u_exchangeVersions :: "sshlib \<Rightarrow> pipedConn \<Rightarrow> error option \<times> pipedConn" where
  "u_exchangeVersions lib s =
     (case exchangeVersions lib (upstream s) of
        (r, c) \<Rightarrow> (r, s\<lparr>upstream := c, log := log s @ [VersionExchange Upstream]\<rparr>))"

definition u_requestKeyChange :: "sshlib \<Rightarrow> pipedConn \<Rightarrow> error option \<times> pipedConn" where
  "u_requestKeyChange lib s =
     (case requestKeyChange lib (upstream s) of
        (r, c) \<Rightarrow> (r, s\<lparr>upstream := c, log := log s @ [KeyChange Upstream]\<rparr>))"

definition serverHandshakeNoAuth ::
  "sshlib \<Rightarrow> Signer list \<Rightarrow> dstate \<Rightarrow> error option \<times> dstate" where
  "serverHandshakeNoAuth lib config_hostKeys s =
     (if length config_hostKeys = 0 then (Some NoHostKeys, s)
      else (case d_exchangeVersions lib s of
        (Some e, s1) \<Rightarrow> (Some e, s1)
      | (None, s1) \<Rightarrow>
          (case d_requestKeyChange lib s1 of
             (Some e, s2) \<Rightarrow> (Some e, s2)
           | (None, s2) \<Rightarrow>
               (case d_readPacket s2 of
                  (Inl e, s3) \<Rightarrow> (Some e, s3)
                | (Inr [], s3) \<Rightarrow> (Some (Panic ''index out of range''), s3)
                | (Inr (t # _), s3) \<Rightarrow>
                    if t \<noteq> msgNewKeys then (Some (UnexpectedMessage msgNewKeys t), s3)
                    else (case d_readPacket s3 of
                      (Inl e, s4) \<Rightarrow> (Some e, s4)
                    | (Inr packet, s4) \<Rightarrow>
                        (case Unmarshal_serviceMsg msgServiceRequest packet of
                           Inl e \<Rightarrow> (Some e, s4)
                         | Inr service \<Rightarrow>
                             if service \<noteq> serviceUserAuth
                             then (Some (ServiceBeforeAuth service), s4)
                             else d_writePacket
                                    (Marshal_serviceAcceptMsg serviceUserAuth) s4))))))"

definition clientHandshakeNoAuth :: "sshlib \<Rightarrow> pipedConn \<Rightarrow> error option \<times> pipedConn" where
  "clientHandshakeNoAuth lib s =
     (case u_exchangeVersions lib s of
        (Some e, s1) \<Rightarrow> (Some e, s1)
      | (None, s1) \<Rightarrow>
          (case u_requestKeyChange lib s1 of
             (Some e, s2) \<Rightarrow> (Some e, s2)
           | (None, s2) \<Rightarrow>
               (case u_readPacket s2 of
                  (Inl e, s3) \<Rightarrow> (Some e, s3)
                | (Inr [], s3) \<Rightarrow> (Some (Panic ''index out of range''), s3)
                | (Inr (t # _), s3) \<Rightarrow>
                    if t \<noteq> msgNewKeys then (Some (UnexpectedMessage msgNewKeys t), s3)
                    else (None, s3))))"

text \<open>Both constructors close the socket when the handshake fails.\<close>

definition newDownstream :: "sshlib \<Rightarrow> Signer list \<Rightarrow> dstate \<Rightarrow> error option \<times> dstate" where
  "newDownstream lib config_hostKeys s =
     (case serverHandshakeNoAuth lib config_hostKeys s of
        (Some e, s1) \<Rightarrow> (Some e, s1\<lparr>log := log s1 @ [Close Downstream]\<rparr>)
      | (None, s1) \<Rightarrow> (None, s1))"

definition newUpstream :: "sshlib \<Rightarrow> pipedConn \<Rightarrow> error option \<times> pipedConn" where
  "newUpstream lib s =
     (case clientHandshakeNoAuth lib s of
        (Some e, s1) \<Rightarrow> (Some e, s1\<lparr>log := log s1 @ [Close Upstream]\<rparr>)
      | (None, s1) \<Rightarrow> (None, s1))"

section \<open>\<^verbatim>\<open>NewSSHPiperConn\<close>\<close>

text \<open>
  One turn of the loop that asks the downstream for keyboard-interactive:
  \<open>Inl r\<close> leaves the loop (\<open>Some e\<close> returns the error from \<^verbatim>\<open>NewSSHPiperConn\<close>,
  \<open>None\<close> is the \<^verbatim>\<open>break\<close>), \<open>Inr ()\<close> goes round. The request read inside the loop
  is a variable of the loop body: the first request stays the one handed to
  \<^verbatim>\<open>pipeAuth\<close>.
\<close>

definition challenge_turn :: "dstate \<Rightarrow> (error option + unit) \<times> dstate" where
  "challenge_turn d =
     (case d_writePacket (Marshal_userAuthFailureMsg [''keyboard-interactive''] False) d of
        (Some e, d1) \<Rightarrow> (Inl (Some e), d1)
      | (None, d1) \<Rightarrow>
          (case nextAuthMsg d1 of
             (Inl e, d2) \<Rightarrow> (Inl (Some e), d2)
           | (Inr userAuthReq, d2) \<Rightarrow>
               if Method userAuthReq = ''keyboard-interactive'' then (Inl None, d2)
               else (Inr (), d2)))"

lemma challenge_turn_rx:
  assumes "challenge_turn d = (Inr u, d')"
  shows "length (rx (downstream d')) < length (rx (downstream d))"
proof -
  from assms obtain d1 m where
    w: "d_writePacket (Marshal_userAuthFailureMsg [''keyboard-interactive''] False) d = (None, d1)"
    and n: "nextAuthMsg d1 = (Inr m, d')"
    by (auto simp: challenge_turn_def split: prod.splits option.splits sum.splits if_splits)
  from nextAuthMsg_rx [OF n] d_writePacket_rx [OF w] show ?thesis by simp
qed

function challenge_loop :: "dstate \<Rightarrow> error option \<times> dstate" where
  "challenge_loop d =
     (case challenge_turn d of
        (Inl r, d1) \<Rightarrow> (r, d1)
      | (Inr _, d1) \<Rightarrow> challenge_loop d1)"
  by pat_completeness auto
termination
  by (relation "measure (\<lambda>d. length (rx (downstream d)))")
     (auto dest: challenge_turn_rx [OF sym])

declare challenge_loop.simps [simp del]

text \<open>
  The block \<^verbatim>\<open>if piper.AdditionalChallenge != nil { ... }\<close>. The callback reads and
  writes on the downstream connection; its call and what it returned are logged.
\<close>

definition additionalChallenge_block :: "SSHPiperConfig \<Rightarrow> dstate \<Rightarrow> error option \<times> dstate" where
  "additionalChallenge_block piper d =
     (case AdditionalChallenge piper of
        None \<Rightarrow> (None, d)
      | Some additionalChallenge \<Rightarrow>
          (case challenge_loop d of
             (Some e, d1) \<Rightarrow> (Some e, d1)
           | (None, d1) \<Rightarrow>
               (case additionalChallenge (downstream d1) of
                  ((ok, err), c) \<Rightarrow>
                    let d2 = d1\<lparr>downstream := (downstream d1)\<lparr>rx := rx c, wcap := wcap c\<rparr>,
                                log := log d1 @ [Called_AdditionalChallenge ok err]\<rparr> in
                    (case err of
                       Some e \<Rightarrow> (Some e, d2)
                     | None \<Rightarrow> if \<not> ok then (Some ChallengeFailed, d2) else (None, d2)))))"

text \<open>
  From the call of \<^verbatim>\<open>FindUpstream\<close> to the end. The result carries the log also
  when the function fails. The deferred \<^verbatim>\<open>u.Close()\<close> runs when \<^verbatim>\<open>pipeAuth\<close> fails.
\<close>

definition connectUpstream ::
  "sshlib \<Rightarrow> SSHPiperConfig \<Rightarrow> (connection \<Rightarrow> connection option \<times> string \<times> error option)
     \<Rightarrow> userAuthRequestMsg \<Rightarrow> dstate \<Rightarrow> (error + pipedConn) \<times> event list" where
  "connectUpstream lib piper findUpstream userAuthReq d =
     (case findUpstream (downstream d) of
        (upconn, mappedUser0, err) \<Rightarrow>
          let lg = log d @ [Called_FindUpstream] in
          (case err of
             Some e \<Rightarrow> (Inl e, lg)
           | None \<Rightarrow>
               (case upconn of
                  None \<Rightarrow> (Inl (Panic ''nil pointer dereference''), lg)
                | Some uc \<Rightarrow>
                    let mappedUser = (if mappedUser0 = [] then user (downstream d)
                                      else mappedUser0) in
                    (case newUpstream lib
                            \<lparr>log = lg, downstream = downstream d, upstream = uc\<rparr> of
                       (Some e, p0) \<Rightarrow> (Inl e, log p0)
                     | (None, p0) \<Rightarrow>
                         (case pipeAuth lib piper mappedUser userAuthReq p0 of
                            (Some e, p1) \<Rightarrow> (Inl e, log p1 @ [Close Upstream])
                          | (None, p1) \<Rightarrow> (Inr p1, log p1))))))"

definition NewSSHPiperConn ::
  "sshlib \<Rightarrow> connection \<Rightarrow> SSHPiperConfig \<Rightarrow> (error + pipedConn) \<times> event list" where
  "NewSSHPiperConn lib conn piper =
     (case FindUpstream piper of
        None \<Rightarrow> (Inl (Panic ''FindUpstream func not found''), [])
      | Some findUpstream \<Rightarrow>
          (case newDownstream lib (hostKeys piper) \<lparr>log = [], downstream = conn\<rparr> of
             (Some e, d) \<Rightarrow> (Inl e, log d)
           | (None, d) \<Rightarrow>
               (case (case nextAuthMsg d of
                        (Inl e, d1) \<Rightarrow> (Inl e, log d1)
                      | (Inr userAuthReq, d1) \<Rightarrow>
                          let d2 = d1\<lparr>downstream := (downstream d1)\<lparr>user := User userAuthReq\<rparr>\<rparr> in
                          (case additionalChallenge_block piper d2 of
                             (Some e, d3) \<Rightarrow> (Inl e, log d3)
                           | (None, d3) \<Rightarrow>
                               connectUpstream lib piper findUpstream userAuthReq d3)) of
                  (Inl e, lg) \<Rightarrow> (Inl e, lg @ [Close Downstream])
                | (Inr pipe, lg) \<Rightarrow> (Inr pipe, lg))))"

section \<open>Concrete instances\<close>

text \<open>
  A small world to run the definitions in. The toy key of algorithm \<open>algo\<close> and
  blob \<open>blob\<close> accepts exactly the signatures of format \<open>algo\<close> whose blob is the key
  blob followed by the signed data, and the toy signer produces them. The example
  library accepts three algorithm names, decodes every blob that starts with a string
  (the algorithm name) as the toy key of that name, and its \<^verbatim>\<open>validateKey\<close> writes
  a query to the upstream and takes the answer \<^verbatim>\<open>SSH_MSG_USERAUTH_PK_OK\<close> for yes.
\<close>

definition example_PublicKey :: "string \<Rightarrow> bytes \<Rightarrow> PublicKey" where
  "example_PublicKey algo blob =
     \<lparr>Type = algo, Marshal = blob,
      Verify = (\<lambda>data sg. Format sg = algo \<and> Blob sg = blob @ data)\<rparr>"

definition example_Signer :: "string \<Rightarrow> bytes \<Rightarrow> Signer" where
  "example_Signer algo blob =
     \<lparr>PublicKey = example_PublicKey algo blob,
      Sign = (\<lambda>data. Inr \<lparr>Format = algo, Blob = blob @ data\<rparr>)\<rparr>"

definition example_validateKey ::
  "PublicKey \<Rightarrow> string \<Rightarrow> connection \<Rightarrow> (bool \<times> error option) \<times> connection" where
  "example_validateKey key usr c =
     (case t_writePacket
             (Marshal_publickeyAuthMsg
                \<lparr>pkUser = usr, pkService = serviceSSH, pkMethod = ''publickey'',
                 HasSig = False, Algoname = Type key, PubKey = Marshal key, Sig = []\<rparr>) c of
        (Some e, c1) \<Rightarrow> ((False, Some e), c1)
      | (None, c1) \<Rightarrow>
          (case t_readPacket c1 of
             (Inl e, c2) \<Rightarrow> ((False, Some e), c2)
           | (Inr [], c2) \<Rightarrow> ((False, Some (Panic ''index out of range'')), c2)
           | (Inr (t # _), c2) \<Rightarrow> ((t = msgUserAuthPubKeyOk, None), c2)))"

definition example_lib :: sshlib where
  "example_lib =
     \<lparr>isAcceptableAlgo = (\<lambda>algo. algo \<in> set [''ssh-rsa'', ''ssh-ed25519'', ''rsa-sha2-256'']),
      ParsePublicKey = (\<lambda>blob. case parseString blob of
                                 None \<Rightarrow> Inl (External ''ssh: short read'')
                               | Some (algo, _) \<Rightarrow> Inr (example_PublicKey algo blob)),
      validateKey = example_validateKey,
      exchangeVersions = (\<lambda>c. (None, c)),
      requestKeyChange = (\<lambda>c. (None, c))\<rparr>"

definition example_blob :: "string \<Rightarrow> bytes" where
  "example_blob algo = marshalString algo @ ''K''"

text \<open>The payload of a publickey request: query form, and signed form.\<close>

definition query_payload :: "string \<Rightarrow> bytes \<Rightarrow> bytes" where
  "query_payload algo blob = marshalBool False @ marshalString algo @ marshalString blob"

definition signed_payload :: "string \<Rightarrow> bytes \<Rightarrow> Signature \<Rightarrow> bytes" where
  "signed_payload algo blob sg =
     marshalBool True @ marshalString algo @ marshalString blob
       @ marshalString (Marshal_Signature sg)"

definition example_conn :: "bytes list \<Rightarrow> connection" where
  "example_conn packets = \<lparr>user = [], sessionID = ''sid'', rx = packets, wcap = 10\<rparr>"

definition example_pipe :: "bytes list \<Rightarrow> bytes list \<Rightarrow> pipedConn" where
  "example_pipe down_packets up_packets =
     \<lparr>log = [],
      downstream = (example_conn down_packets)\<lparr>user := ''alice'', sessionID := ''down-sid''\<rparr>,
      upstream = (example_conn up_packets)\<lparr>sessionID := ''up-sid''\<rparr>\<rparr>"

definition example_piper ::
  "(connection \<Rightarrow> PublicKey \<Rightarrow> Signer option \<times> error option) option \<Rightarrow> SSHPiperConfig" where
  "example_piper mapPublicKey =
     \<lparr>hostKeys = [example_Signer ''ssh-rsa'' (example_blob ''ssh-rsa'')],
      AdditionalChallenge = None,
      FindUpstream = Some (\<lambda>d. (Some (example_conn []), ''bob'', None)),
      MapPublicKey = mapPublicKey\<rparr>"

definition publickey_request :: "string \<Rightarrow> bytes \<Rightarrow> userAuthRequestMsg" where
  "publickey_request usr payload =
     \<lparr>User = usr, Service = serviceSSH, Method = ''publickey'', Payload = payload\<rparr>"

text \<open>
  The request \<^verbatim>\<open>signAgain\<close> builds from the mapped user, the signer's key and the
  signer's signature.
\<close>

definition resigned_request :: "string \<Rightarrow> Signer \<Rightarrow> Signature \<Rightarrow> userAuthRequestMsg" where
  "resigned_request mappedUser signer newSig =
     publickey_request mappedUser
       (signed_payload (Type (PublicKey signer)) (Marshal (PublicKey signer)) newSig)"

text \<open>What the toy key of algorithm \<open>algo\<close> signs for user \<open>usr\<close> on session \<open>sid\<close>.\<close>

definition example_Signature :: "string \<Rightarrow> bytes \<Rightarrow> string \<Rightarrow> Signature" where
  "example_Signature algo sid usr =
     \<lparr>Format = algo,
      Blob = example_blob algo
               @ buildDataSignedForAuth sid (publickey_request usr []) algo (example_blob algo)\<rparr>"

definition example_failure_packet :: bytes where
  "example_failure_packet = Marshal_userAuthFailureMsg [''publickey'', ''password''] False"


definition dss_Signature :: Signature where
  "dss_Signature = \<lparr>Format = ''ssh-dss'', Blob = ''signature''\<rparr>"

text \<open>
  A whole session: the downstream completes the handshake, asks for the service, sends
  a first request with method "none" and then one with method keyboard-interactive;
  the upstream completes the handshake, accepts the service and answers the first
  forwarded request with \<^verbatim>\<open>SSH_MSG_USERAUTH_SUCCESS\<close>. The configuration has an
  additional challenge that answers \<open>passes\<close> without talking to the downstream.
\<close>

definition first_request :: userAuthRequestMsg where
  "first_request = \<lparr>User = ''alice'', Service = serviceSSH, Method = ''none'', Payload = []\<rparr>"

definition keyboard_request :: userAuthRequestMsg where
  "keyboard_request =
     \<lparr>User = ''alice'', Service = serviceSSH, Method = ''keyboard-interactive'', Payload = []\<rparr>"

definition session_downstream :: connection where
  "session_downstream =
     example_conn [[msgNewKeys], Marshal_serviceRequestMsg serviceUserAuth,
                   Marshal_userAuthRequestMsg first_request,
                   Marshal_userAuthRequestMsg keyboard_request]"

definition session_upstream :: connection where
  "session_upstream =
     example_conn [[msgNewKeys], Marshal_serviceAcceptMsg serviceUserAuth,
                   [msgUserAuthSuccess]]"

definition session_piper :: "bool \<Rightarrow> SSHPiperConfig" where
  "session_piper passes =
     \<lparr>hostKeys = [example_Signer ''ssh-rsa'' (example_blob ''ssh-rsa'')],
      AdditionalChallenge = Some (\<lambda>d. ((passes, None), d)),
      FindUpstream = Some (\<lambda>d. (Some session_upstream, ''bob'', None)),
      MapPublicKey = None\<rparr>"

text \<open>The states that session passes through on the downstream side.\<close>

definition session_after_handshake :: dstate where
  "session_after_handshake =
     \<lparr>log = [VersionExchange Downstream, KeyChange Downstream, Read Downstream [msgNewKeys],
             Read Downstream (Marshal_serviceRequestMsg serviceUserAuth),
             Write Downstream (Marshal_serviceAcceptMsg serviceUserAuth)],
      downstream = session_downstream
        \<lparr>rx := [Marshal_userAuthRequestMsg first_request,
                 Marshal_userAuthRequestMsg keyboard_request],
         wcap := 9\<rparr>\<rparr>"

definition session_read_first :: dstate where
  "session_read_first =
     \<lparr>log = log session_after_handshake
               @ [Read Downstream (Marshal_userAuthRequestMsg first_request)],
      downstream = session_downstream
        \<lparr>rx := [Marshal_userAuthRequestMsg keyboard_request], wcap := 9\<rparr>\<rparr>"

definition session_before_challenge :: dstate where
  "session_before_challenge =
     session_read_first\<lparr>downstream := (downstream session_read_first)\<lparr>user := ''alice''\<rparr>\<rparr>"

definition session_after_challenge :: "bool \<Rightarrow> dstate" where
  "session_after_challenge passes =
     \<lparr>log = log session_read_first @
             [Write Downstream (Marshal_userAuthFailureMsg [''keyboard-interactive''] False),
              Read Downstream (Marshal_userAuthRequestMsg keyboard_request),
              Called_AdditionalChallenge passes None],
      downstream = session_downstream\<lparr>user := ''alice'', rx := [], wcap := 8\<rparr>\<rparr>"

section \<open>Reading the log\<close>

text \<open>
  The events of the transport, as opposed to the calls of the two callbacks
  \<^verbatim>\<open>AdditionalChallenge\<close> and \<^verbatim>\<open>FindUpstream\<close>; and a log that grew by events of the
  transport only.
\<close>

fun is_io :: "event \<Rightarrow> bool" where
  "is_io (Called_AdditionalChallenge ok err) = False"
| "is_io Called_FindUpstream = False"
| "is_io e = True"

definition io_ext :: "event list \<Rightarrow> event list \<Rightarrow> bool" where
  "io_ext l l' = (\<exists>evs. l' = l @ evs \<and> list_all is_io evs)"

section \<open>Host keys\<close>

text \<open>
  What the index loop of \<^verbatim>\<open>AddHostKey\<close> finds: the first index from \<open>i\<close> on whose key
  has the type of the new key, if there is one.
\<close>

lemma AddHostKey_loop_Some:
  "AddHostKey_loop i hs key = Some r \<Longrightarrow>
     \<exists>j. i \<le> j \<and> j < length hs \<and> Type (PublicKey (hs ! j)) = Type (PublicKey key)
       \<and> (\<forall>l. i \<le> l \<and> l < j \<longrightarrow> Type (PublicKey (hs ! l)) \<noteq> Type (PublicKey key))
       \<and> r = hs[j := key]"
proof (induction i hs key rule: AddHostKey_loop.induct)
  case (1 i hostKeys key)
  show ?case
  proof (cases "i < length hostKeys \<and> Type (PublicKey (hostKeys ! i)) \<noteq> Type (PublicKey key)")
    case True
    with "1.prems" have "AddHostKey_loop (Suc i) hostKeys key = Some r"
      by (subst (asm) AddHostKey_loop.simps) simp
    with "1.IH" True obtain j where j: "Suc i \<le> j" "j < length hostKeys"
      "Type (PublicKey (hostKeys ! j)) = Type (PublicKey key)"
      "\<forall>l. Suc i \<le> l \<and> l < j \<longrightarrow> Type (PublicKey (hostKeys ! l)) \<noteq> Type (PublicKey key)"
      "r = hostKeys[j := key]" by blast
    have "\<forall>l. i \<le> l \<and> l < j \<longrightarrow> Type (PublicKey (hostKeys ! l)) \<noteq> Type (PublicKey key)"
    proof (intro allI impI)
      fix l assume "i \<le> l \<and> l < j"
      then have "l = i \<or> (Suc i \<le> l \<and> l < j)" by arith
      with True j(4) show "Type (PublicKey (hostKeys ! l)) \<noteq> Type (PublicKey key)" by blast
    qed
    with j show ?thesis by (intro exI [of _ j]) simp
  next
    case False
    with "1.prems" have "i < length hostKeys" 
      "Type (PublicKey (hostKeys ! i)) = Type (PublicKey key)" "r = hostKeys[i := key]"
      by (subst (asm) AddHostKey_loop.simps, simp split: if_splits)+
    then show ?thesis by (intro exI [of _ i]) auto
  qed
qed

lemma AddHostKey_loop_None:
  "AddHostKey_loop i hs key = None \<longleftrightarrow>
     (\<forall>j. i \<le> j \<and> j < length hs \<longrightarrow> Type (PublicKey (hs ! j)) \<noteq> Type (PublicKey key))"
proof (induction i hs key rule: AddHostKey_loop.induct)
  case (1 i hostKeys key)
  show ?case
  proof (cases "i < length hostKeys \<and> Type (PublicKey (hostKeys ! i)) \<noteq> Type (PublicKey key)")
    case True
    then have "AddHostKey_loop i hostKeys key = AddHostKey_loop (Suc i) hostKeys key"
      by (subst AddHostKey_loop.simps) simp
    moreover have "(\<forall>j. i \<le> j \<and> j < length hostKeys \<longrightarrow> Type (PublicKey (hostKeys ! j)) \<noteq> Type (PublicKey key))
       \<longleftrightarrow> (\<forall>j. Suc i \<le> j \<and> j < length hostKeys \<longrightarrow> Type (PublicKey (hostKeys ! j)) \<noteq> Type (PublicKey key))"
    proof
      assume a: "\<forall>j. i \<le> j \<and> j < length hostKeys \<longrightarrow> Type (PublicKey (hostKeys ! j)) \<noteq> Type (PublicKey key)"
      show "\<forall>j. Suc i \<le> j \<and> j < length hostKeys \<longrightarrow> Type (PublicKey (hostKeys ! j)) \<noteq> Type (PublicKey key)"
        using a by auto
    next
      assume a: "\<forall>j. Suc i \<le> j \<and> j < length hostKeys \<longrightarrow> Type (PublicKey (hostKeys ! j)) \<noteq> Type (PublicKey key)"
      show "\<forall>j. i \<le> j \<and> j < length hostKeys \<longrightarrow> Type (PublicKey (hostKeys ! j)) \<noteq> Type (PublicKey key)"
      proof (intro allI impI)
        fix j assume "i \<le> j \<and> j < length hostKeys"
        then have "j = i \<or> (Suc i \<le> j \<and> j < length hostKeys)" by arith
        with a True show "Type (PublicKey (hostKeys ! j)) \<noteq> Type (PublicKey key)" by blast
      qed
    qed
    ultimately show ?thesis using "1.IH" True by simp
  next
    case False
    then show ?thesis by (subst AddHostKey_loop.simps) auto
  qed
qed

text \<open>
  C9. \<^verbatim>\<open>AddHostKey\<close>: when the list holds a key whose public-key type is the type of
  the new key, the new key is stored in the place of the first such key and the list
  keeps its length; when it holds none, the new key is appended.
\<close>

theorem AddHostKey_replaces_or_appends:
  "((\<exists>k \<in> set (hostKeys s). Type (PublicKey k) = Type (PublicKey key)) \<longrightarrow>
      (\<exists>i < length (hostKeys s).
          Type (PublicKey (hostKeys s ! i)) = Type (PublicKey key)
        \<and> (\<forall>l < i. Type (PublicKey (hostKeys s ! l)) \<noteq> Type (PublicKey key))
        \<and> hostKeys (AddHostKey s key) = (hostKeys s)[i := key])
      \<and> length (hostKeys (AddHostKey s key)) = length (hostKeys s))
   \<and> ((\<forall>k \<in> set (hostKeys s). Type (PublicKey k) \<noteq> Type (PublicKey key)) \<longrightarrow>
        hostKeys (AddHostKey s key) = hostKeys s @ [key])"
proof (intro conjI impI)
  assume ex: "\<exists>k \<in> set (hostKeys s). Type (PublicKey k) = Type (PublicKey key)"
  then have "AddHostKey_loop 0 (hostKeys s) key \<noteq> None"
    by (auto simp: AddHostKey_loop_None in_set_conv_nth)
  then obtain r where r: "AddHostKey_loop 0 (hostKeys s) key = Some r" by blast
  from AddHostKey_loop_Some [OF r] obtain j where j: "j < length (hostKeys s)"
    "Type (PublicKey (hostKeys s ! j)) = Type (PublicKey key)"
    "\<forall>l. l < j \<longrightarrow> Type (PublicKey (hostKeys s ! l)) \<noteq> Type (PublicKey key)"
    "r = (hostKeys s)[j := key]" by auto
  have eq: "hostKeys (AddHostKey s key) = (hostKeys s)[j := key]"
    using r j(4) by (simp add: AddHostKey_def AddHostKey_hostKeys_def)
  with j show "\<exists>i < length (hostKeys s).
          Type (PublicKey (hostKeys s ! i)) = Type (PublicKey key)
        \<and> (\<forall>l < i. Type (PublicKey (hostKeys s ! l)) \<noteq> Type (PublicKey key))
        \<and> hostKeys (AddHostKey s key) = (hostKeys s)[i := key]" by blast
  from eq show "length (hostKeys (AddHostKey s key)) = length (hostKeys s)" by simp
next
  assume "\<forall>k \<in> set (hostKeys s). Type (PublicKey k) \<noteq> Type (PublicKey key)"
  then have "AddHostKey_loop 0 (hostKeys s) key = None"
    by (simp add: AddHostKey_loop_None)
  then show "hostKeys (AddHostKey s key) = hostKeys s @ [key]"
    by (simp add: AddHostKey_def AddHostKey_hostKeys_def)
qed

theorem AddHostKey_replaces_or_appends_witness:
  "(\<exists>k \<in> set (hostKeys (example_piper None)).
       Type (PublicKey k) = Type (PublicKey (example_Signer ''ssh-rsa'' ''new'')))
   \<and> hostKeys (AddHostKey (example_piper None) (example_Signer ''ssh-rsa'' ''new''))
       = [example_Signer ''ssh-rsa'' ''new'']
   \<and> list_all (\<lambda>k. Type (PublicKey k) \<noteq> Type (PublicKey (example_Signer ''ssh-ed25519'' ''new'')))
         (hostKeys (example_piper None))
   \<and> hostKeys (AddHostKey (example_piper None) (example_Signer ''ssh-ed25519'' ''new''))
       = [example_Signer ''ssh-rsa'' (example_blob ''ssh-rsa''),
          example_Signer ''ssh-ed25519'' ''new'']"
  using AddHostKey_replaces_or_appends
          [of "example_piper None" "example_Signer ''ssh-rsa'' ''new''"]
        AddHostKey_replaces_or_appends
          [of "example_piper None" "example_Signer ''ssh-ed25519'' ''new''"]
  by (simp add: example_piper_def example_Signer_def example_PublicKey_def)

section \<open>The nil \<^verbatim>\<open>FindUpstream\<close>\<close>

text \<open>
  C10. With a configuration whose \<^verbatim>\<open>FindUpstream\<close> is nil, \<^verbatim>\<open>NewSSHPiperConn\<close> panics
  and the log is empty: no handshake step, no read, no write and no close has
  happened on the downstream connection.
\<close>

theorem NewSSHPiperConn_nil_FindUpstream_panics:
  "FindUpstream piper = None \<Longrightarrow>
     NewSSHPiperConn lib conn piper = (Inl (Panic ''FindUpstream func not found''), [])"
  by (simp add: NewSSHPiperConn_def)

theorem NewSSHPiperConn_nil_FindUpstream_panics_witness:
  "FindUpstream ((example_piper None)\<lparr>FindUpstream := None\<rparr>) = None
   \<and> NewSSHPiperConn example_lib (example_conn [])
        ((example_piper None)\<lparr>FindUpstream := None\<rparr>)
       = (Inl (Panic ''FindUpstream func not found''), [])"
  using NewSSHPiperConn_nil_FindUpstream_panics
          [of "(example_piper None)\<lparr>FindUpstream := None\<rparr>" example_lib "example_conn []"]
  by simp

section \<open>The wire encoding, there and back\<close>

text \<open>
  A length below \<open>2\<^sup>3\<^sup>2\<close> survives the four length bytes, so a marshalled string
  parses back to itself and leaves what follows it.
\<close>

lemma be_uint32_uint32_be:
  assumes "n < 4294967296"
  shows "be_uint32 (uint32_be n @ r) = n"
proof -
  define a where "a = n div 256"
  define b where "b = a div 256"
  define c where "c = b div 256"
  have n: "n = a * 256 + n mod 256" unfolding a_def by simp
  have a: "a = b * 256 + a mod 256" unfolding b_def by simp
  have b: "b = c * 256 + b mod 256" unfolding c_def by simp
  have b2: "n div 65536 = b" unfolding b_def a_def by (simp add: div_mult2_eq)
  have c2: "n div 16777216 = c" unfolding c_def b_def a_def by (simp add: div_mult2_eq)
  have "c < 256" using assms c2 by simp
  then have c3: "c mod 256 = c" by simp
  have "c * 16777216 + b mod 256 * 65536 + a mod 256 * 256 + n mod 256 = n"
    using n a b by linarith
  then show ?thesis
    by (simp add: be_uint32_def uint32_be_def b2 c2 c3 a_def [symmetric])
qed

lemma parseString_marshalString:
  assumes "length s < 4294967296"
  shows "parseString (marshalString s @ r) = Some (s, r)"
proof -
  have l: "length (uint32_be (length s)) = 4" by (simp add: uint32_be_def)
  have t: "take 4 (uint32_be (length s) @ s @ r) = uint32_be (length s)"
    using l by simp
  have "be_uint32 (uint32_be (length s)) = length s"
    using be_uint32_uint32_be [OF assms, of "[]"] by simp
  with l t show ?thesis
    by (simp add: parseString_def marshalString_def Let_def)
qed


lemma Unmarshal_Marshal_publickeyAuthMsg:
  assumes "length (pkUser pk) < 4294967296" "length (pkService pk) < 4294967296"
    "length (pkMethod pk) < 4294967296"
  shows "Unmarshal_userAuthRequestMsg (Marshal_publickeyAuthMsg pk) m =
           (None, \<lparr>User = pkUser pk, Service = pkService pk, Method = pkMethod pk,
                   Payload = marshalBool (HasSig pk) @ marshalString (Algoname pk)
                     @ marshalString (PubKey pk) @ Sig pk\<rparr>)"
  using assms
  by (simp add: Unmarshal_userAuthRequestMsg_def Marshal_publickeyAuthMsg_def
      parseString_marshalString)

lemma buildDataSignedForAuth_fields:
  "User a = User b \<Longrightarrow> Service a = Service b \<Longrightarrow> Method a = Method b \<Longrightarrow>
     buildDataSignedForAuth sid a algo key = buildDataSignedForAuth sid b algo key"
  by (simp add: buildDataSignedForAuth_def)

lemma signAgain_result:
  assumes "length usr < 4294967296"
    and "Sign signer (buildDataSignedForAuth (sessionID (upstream pipe))
            \<lparr>User = usr, Service = serviceSSH, Method = ''publickey'', Payload = []\<rparr>
            (Type (PublicKey signer)) (Marshal (PublicKey signer))) = Inr newSig"
  shows "signAgain usr msg signer downKey pipe =
           Inr (resigned_request usr signer newSig)"
  using assms
  by (simp add: signAgain_def Let_def Unmarshal_Marshal_publickeyAuthMsg signed_payload_def
      serviceSSH_def resigned_request_def publickey_request_def)

lemma length_marshalString: "length (marshalString s) = 4 + length s"
  by (simp add: marshalString_def uint32_be_def)

lemma parseSignature_marshalString:
  assumes "length (Format sg) < 4294967296" "length (Blob sg) < 4294967296"
    "length (Marshal_Signature sg) < 4294967296"
  shows "parseSignature (marshalString (Marshal_Signature sg) @ r) = Some (sg, r)"
proof -
  have "parseSignatureBody (Marshal_Signature sg) = Some (sg, [])"
    using assms(1,2) parseString_marshalString [of "Blob sg" "[]"]
    by (simp add: parseSignatureBody_def Marshal_Signature_def parseString_marshalString)
  then show ?thesis
    using assms(3) by (simp add: parseSignature_def parseString_marshalString)
qed

lemma parsePublicKeyMsg_query_payload:
  assumes "length algo < 4294967296" "length blob < 4294967296"
  shows "parsePublicKeyMsg lib (publickey_request usr (query_payload algo blob @ trailing)) =
           (if \<not> isAcceptableAlgo lib algo then Inl (AlgoNotAccepted algo)
            else case ParsePublicKey lib blob of
                   Inl e \<Rightarrow> Inl e
                 | Inr pubKey \<Rightarrow> Inr (pubKey, True, None))"
  using assms
  by (simp add: parsePublicKeyMsg_def publickey_request_def query_payload_def marshalBool_def
      parseString_marshalString split: sum.splits)

lemma parsePublicKeyMsg_signed_payload:
  assumes "length algo < 4294967296" "length blob < 4294967296"
    "length (Format sg) < 4294967296" "length (Blob sg) < 4294967296"
    "length (Marshal_Signature sg) < 4294967296"
  shows "parsePublicKeyMsg lib (publickey_request usr (signed_payload algo blob sg)) =
           (if \<not> isAcceptableAlgo lib algo then Inl (AlgoNotAccepted algo)
            else case ParsePublicKey lib blob of
                   Inl e \<Rightarrow> Inl e
                 | Inr pubKey \<Rightarrow> Inr (pubKey, False, Some sg))"
  using assms parseSignature_marshalString [OF assms(3-5), of "[]"]
  by (simp add: parsePublicKeyMsg_def publickey_request_def signed_payload_def marshalBool_def
      parseString_marshalString split: sum.splits)

lemma example_lib_simps:
  "isAcceptableAlgo example_lib algo = (algo \<in> set [''ssh-rsa'', ''ssh-ed25519'', ''rsa-sha2-256''])"
  "validateKey example_lib = example_validateKey"
  by (simp_all add: example_lib_def)

lemma example_lib_ParsePublicKey:
  "length algo < 4294967296 \<Longrightarrow>
     ParsePublicKey example_lib (example_blob algo) = Inr (example_PublicKey algo (example_blob algo))"
  by (simp add: example_lib_def example_blob_def parseString_marshalString)

lemma example_lengths:
  "length (example_blob algo) = 5 + length algo"
  "length (buildDataSignedForAuth sid m algo blob) =
     26 + length sid + length (User m) + length (Service m) + length (Method m)
       + length algo + length blob"
  "length (Marshal_Signature sg) = 8 + length (Format sg) + length (Blob sg)"
  by (simp_all add: example_blob_def buildDataSignedForAuth_def length_marshalString
      marshalBool_def Marshal_Signature_def)

section \<open>The signed branch: signing again\<close>

text \<open>
  C2. A publickey request in signed form, with a \<^verbatim>\<open>MapPublicKey\<close> that maps the
  downstream key to a signer and a downstream signature that \<^verbatim>\<open>checkPublicKey\<close>
  accepts: when the signer signs, the transform returns the rebuilt request, with the
  mapped user, the signer's key type and key blob, the has-signature byte set, and the
  signer's signature. That signature is the signer's over the signed blob of the
  upstream session ID and the rebuilt request, so it verifies under the signer's key
  whenever that key verifies what the signer signs. (The user name is shorter than
  \<open>2\<^sup>3\<^sup>2\<close> bytes, as in every SSH packet.)
\<close>

theorem processAuthMsg_signed_request_is_signed_again:
  assumes "MapPublicKey piper = Some mapPublicKey"
    and "parsePublicKeyMsg lib msg = Inr (downKey, False, Some downSig)"
    and "mapPublicKey (downstream pipe) downKey = (Some signer, None)"
    and "checkPublicKey lib msg downKey downSig pipe = (True, None)"
    and "length mappedUser < 4294967296"
    and "Sign signer (buildDataSignedForAuth (sessionID (upstream pipe))
            \<lparr>User = mappedUser, Service = serviceSSH, Method = ''publickey'', Payload = []\<rparr>
            (Type (PublicKey signer)) (Marshal (PublicKey signer))) = Inr newSig"
  shows "processAuthMsg lib piper mappedUser msg pipe
           = (Inr (Some (resigned_request mappedUser signer newSig)), pipe)
         \<and> resigned_request mappedUser signer newSig
           = \<lparr>User = mappedUser, Service = serviceSSH, Method = ''publickey'',
              Payload = marshalBool True @ marshalString (Type (PublicKey signer))
                @ marshalString (Marshal (PublicKey signer))
                @ marshalString (Marshal_Signature newSig)\<rparr>
         \<and> Sign signer
               (buildDataSignedForAuth (sessionID (upstream pipe))
                  (resigned_request mappedUser signer newSig)
                  (Type (PublicKey signer)) (Marshal (PublicKey signer))) = Inr newSig
         \<and> ((\<forall>d s. Sign signer d = Inr s \<longrightarrow> Verify (PublicKey signer) d s) \<longrightarrow>
              Verify (PublicKey signer)
                (buildDataSignedForAuth (sessionID (upstream pipe))
                   (resigned_request mappedUser signer newSig)
                   (Type (PublicKey signer)) (Marshal (PublicKey signer))) newSig)"
proof -
  let ?fwd = "resigned_request mappedUser signer newSig"
  have m: "Method msg = ''publickey''"
    using assms(2) by (auto simp: parsePublicKeyMsg_def split: if_splits)
  have sa: "signAgain mappedUser msg signer downKey pipe = Inr ?fwd"
    by (rule signAgain_result [OF assms(5) assms(6)])
  have p: "processAuthMsg lib piper mappedUser msg pipe = (Inr (Some ?fwd), pipe)"
    using m assms(1-4) sa by (simp add: processAuthMsg_def)
  have b: "buildDataSignedForAuth (sessionID (upstream pipe)) ?fwd
             (Type (PublicKey signer)) (Marshal (PublicKey signer))
           = buildDataSignedForAuth (sessionID (upstream pipe))
               \<lparr>User = mappedUser, Service = serviceSSH, Method = ''publickey'', Payload = []\<rparr>
               (Type (PublicKey signer)) (Marshal (PublicKey signer))"
    by (rule buildDataSignedForAuth_fields)
       (simp_all add: resigned_request_def publickey_request_def)
  have s: "Sign signer (buildDataSignedForAuth (sessionID (upstream pipe)) ?fwd
             (Type (PublicKey signer)) (Marshal (PublicKey signer))) = Inr newSig"
    using assms(6) b by simp
  have e: "?fwd = \<lparr>User = mappedUser, Service = serviceSSH, Method = ''publickey'',
              Payload = marshalBool True @ marshalString (Type (PublicKey signer))
                @ marshalString (Marshal (PublicKey signer))
                @ marshalString (Marshal_Signature newSig)\<rparr>"
    by (simp add: resigned_request_def publickey_request_def signed_payload_def)
  show ?thesis
    using p s e by blast
qed

theorem processAuthMsg_signed_request_is_signed_again_witness:
  "parsePublicKeyMsg example_lib
     (publickey_request ''alice''
        (signed_payload ''ssh-rsa'' (example_blob ''ssh-rsa'')
           (example_Signature ''ssh-rsa'' ''down-sid'' ''alice'')))
     = Inr (example_PublicKey ''ssh-rsa'' (example_blob ''ssh-rsa''), False,
            Some (example_Signature ''ssh-rsa'' ''down-sid'' ''alice''))
   \<and> processAuthMsg example_lib
       (example_piper (Some (\<lambda>d k. (Some (example_Signer ''ssh-ed25519''
                                            (example_blob ''ssh-ed25519'')), None))))
       ''bob''
       (publickey_request ''alice''
          (signed_payload ''ssh-rsa'' (example_blob ''ssh-rsa'')
             (example_Signature ''ssh-rsa'' ''down-sid'' ''alice'')))
       (example_pipe [] [])
     = (Inr (Some (resigned_request ''bob''
                     (example_Signer ''ssh-ed25519'' (example_blob ''ssh-ed25519''))
                     (example_Signature ''ssh-ed25519'' ''up-sid'' ''bob''))),
        example_pipe [] [])
   \<and> Verify (example_PublicKey ''ssh-ed25519'' (example_blob ''ssh-ed25519''))
       (buildDataSignedForAuth ''up-sid''
          (resigned_request ''bob''
             (example_Signer ''ssh-ed25519'' (example_blob ''ssh-ed25519''))
             (example_Signature ''ssh-ed25519'' ''up-sid'' ''bob''))
          ''ssh-ed25519'' (example_blob ''ssh-ed25519''))
       (example_Signature ''ssh-ed25519'' ''up-sid'' ''bob'')"
proof -
  let ?msg = "publickey_request ''alice''
        (signed_payload ''ssh-rsa'' (example_blob ''ssh-rsa'')
           (example_Signature ''ssh-rsa'' ''down-sid'' ''alice''))"
  let ?signer = "example_Signer ''ssh-ed25519'' (example_blob ''ssh-ed25519'')"
  let ?f = "\<lambda>(d::connection) (k::PublicKey). (Some ?signer, None :: error option)"
  have h1: "MapPublicKey (example_piper (Some ?f)) = Some ?f"
    by (simp add: example_piper_def)
  have h2: "parsePublicKeyMsg example_lib ?msg
     = Inr (example_PublicKey ''ssh-rsa'' (example_blob ''ssh-rsa''), False,
            Some (example_Signature ''ssh-rsa'' ''down-sid'' ''alice''))"
    by (subst parsePublicKeyMsg_signed_payload)
       (simp_all add: example_lib_simps example_lib_ParsePublicKey example_lengths
          example_Signature_def publickey_request_def serviceSSH_def)
  have h3: "?f (downstream (example_pipe [] []))
              (example_PublicKey ''ssh-rsa'' (example_blob ''ssh-rsa'')) = (Some ?signer, None)"
    by simp
  have h4: "checkPublicKey example_lib ?msg
              (example_PublicKey ''ssh-rsa'' (example_blob ''ssh-rsa''))
              (example_Signature ''ssh-rsa'' ''down-sid'' ''alice'') (example_pipe [] [])
            = (True, None)"
    by (simp add: checkPublicKey_def example_lib_simps example_Signature_def
        example_PublicKey_def example_pipe_def example_conn_def
        buildDataSignedForAuth_def publickey_request_def)
  have h5: "length ''bob'' < 4294967296" by simp
  have h6: "Sign ?signer (buildDataSignedForAuth (sessionID (upstream (example_pipe [] [])))
            \<lparr>User = ''bob'', Service = serviceSSH, Method = ''publickey'', Payload = []\<rparr>
            (Type (PublicKey ?signer)) (Marshal (PublicKey ?signer)))
          = Inr (example_Signature ''ssh-ed25519'' ''up-sid'' ''bob'')"
    by (simp add: example_Signer_def example_Signature_def example_PublicKey_def
        example_pipe_def example_conn_def publickey_request_def)
  have snd: "\<forall>d s. Sign ?signer d = Inr s \<longrightarrow> Verify (PublicKey ?signer) d s"
    by (auto simp: example_Signer_def example_PublicKey_def)
  show ?thesis
    using processAuthMsg_signed_request_is_signed_again [OF h1 h2 h3 h4 h5 h6] h2 snd
    by (simp add: example_Signer_def example_PublicKey_def example_pipe_def example_conn_def)
qed

text \<open>
  When the signer fails to sign, the transform returns the nil sentinel and no error:
  nothing is forwarded and the relay loop reads the next downstream request.
\<close>

lemma processAuthMsg_sign_failure:
  assumes "MapPublicKey piper = Some mapPublicKey"
    and "parsePublicKeyMsg lib msg = Inr (downKey, False, Some downSig)"
    and "mapPublicKey (downstream pipe) downKey = (Some signer, None)"
    and "checkPublicKey lib msg downKey downSig pipe = (True, None)"
    and "Sign signer (buildDataSignedForAuth (sessionID (upstream pipe))
            \<lparr>User = mappedUser, Service = serviceSSH, Method = ''publickey'', Payload = []\<rparr>
            (Type (PublicKey signer)) (Marshal (PublicKey signer))) = Inl e"
  shows "processAuthMsg lib piper mappedUser msg pipe = (Inr None, pipe)"
proof -
  have m: "Method msg = ''publickey''"
    using assms(2) by (auto simp: parsePublicKeyMsg_def split: if_splits)
  have "signAgain mappedUser msg signer downKey pipe = Inl e"
    using assms(5) by (simp add: signAgain_def Let_def)
  with m assms(1-4) show ?thesis by (simp add: processAuthMsg_def)
qed

section \<open>The example library at work\<close>

lemma example_validateKey_answer:
  "example_validateKey key usr (upstream (example_pipe ds (p # ps)))
     = ((hd p = msgUserAuthPubKeyOk \<and> p \<noteq> [], (if p = [] then Some (Panic ''index out of range'') else None)),
        (upstream (example_pipe ds (p # ps)))\<lparr>rx := ps, wcap := 9\<rparr>)"
  by (cases p)
     (simp_all add: example_validateKey_def example_pipe_def example_conn_def
        t_writePacket_def t_readPacket_def)

lemma example_parse_query:
  "parsePublicKeyMsg example_lib
     (publickey_request usr (query_payload ''ssh-rsa'' (example_blob ''ssh-rsa'') @ trailing))
     = Inr (example_PublicKey ''ssh-rsa'' (example_blob ''ssh-rsa''), True, None)"
  by (subst parsePublicKeyMsg_query_payload)
     (simp_all add: example_lib_simps example_lib_ParsePublicKey example_lengths)

lemma example_parse_signed:
  assumes "length (Format sg) < 1000" "length (Blob sg) < 1000"
  shows "parsePublicKeyMsg example_lib
     (publickey_request usr (signed_payload ''ssh-rsa'' (example_blob ''ssh-rsa'') sg))
     = Inr (example_PublicKey ''ssh-rsa'' (example_blob ''ssh-rsa''), False, Some sg)"
  using assms
  by (subst parsePublicKeyMsg_signed_payload)
     (simp_all add: example_lib_simps example_lib_ParsePublicKey example_lengths)

section \<open>The query branch\<close>

lemma pipeAuth_next_log:
  "pipeAuth_next s = (r, s') \<Longrightarrow>
     \<exists>evs. log s' = log s @ evs \<and> list_all (\<lambda>e. \<exists>p. e = Read Downstream p) evs"
  by (auto simp: pipeAuth_next_def nextAuthMsg_def d_readPacket_def t_readPacket_def
      split: prod.splits sum.splits list.splits option.splits if_splits)

text \<open>
  C3. A publickey request in query form whose key \<^verbatim>\<open>MapPublicKey\<close> maps to a signer;
  \<open>ok\<close> is the answer of \<^verbatim>\<open>validateKey\<close> for the signer's key and the mapped user.
  When the upstream accepts, the proxy writes \<^verbatim>\<open>SSH_MSG_USERAUTH_PK_OK\<close> with the type
  and the blob of the downstream key to the downstream and returns the nil sentinel,
  and in the rest of that turn of the relay loop it only reads from the downstream:
  nothing is written to the upstream. (When that write to the downstream fails, the
  transform returns the write error, and nothing is forwarded either.) When the
  upstream rejects, the transform returns the "none" request.
\<close>

theorem processAuthMsg_query_acks_or_none:
  assumes "MapPublicKey piper = Some mapPublicKey"
    and "parsePublicKeyMsg lib msg = Inr (downKey, True, sg)"
    and "mapPublicKey (downstream pipe) downKey = (Some signer, None)"
    and "validateKey lib (PublicKey signer) mappedUser (upstream pipe) = ((ok, err), u)"
  shows "(ok \<and> 0 < wcap (downstream pipe) \<longrightarrow>
            processAuthMsg lib piper mappedUser msg pipe
              = (Inr None,
                 pipe\<lparr>upstream := u,
                      downstream := (downstream pipe)\<lparr>wcap := wcap (downstream pipe) - 1\<rparr>,
                      log := log pipe @
                        [Write Downstream
                           (Marshal_userAuthPubKeyOkMsg
                              \<lparr>okAlgo = Type downKey, okPubKey = Marshal downKey\<rparr>)]\<rparr>)
          \<and> (\<exists>evs. log (snd (pipeAuth_turn lib piper mappedUser msg pipe))
                  = log pipe @
                      Write Downstream
                        (Marshal_userAuthPubKeyOkMsg
                           \<lparr>okAlgo = Type downKey, okPubKey = Marshal downKey\<rparr>) # evs
                \<and> list_all (\<lambda>e. \<exists>p. e = Read Downstream p) evs))
       \<and> (ok \<and> wcap (downstream pipe) = 0 \<longrightarrow>
            processAuthMsg lib piper mappedUser msg pipe
              = (Inl WriteFailed, pipe\<lparr>upstream := u\<rparr>))
       \<and> (\<not> ok \<longrightarrow>
            processAuthMsg lib piper mappedUser msg pipe
              = (Inr (Some (noneAuthMsg mappedUser)), pipe\<lparr>upstream := u\<rparr>))"
proof -
  have m: "Method msg = ''publickey''"
    using assms(2) by (auto simp: parsePublicKeyMsg_def split: if_splits)
  have p: "processAuthMsg lib piper mappedUser msg pipe
             = validAndAck lib mappedUser (PublicKey signer) downKey pipe"
    using m assms(1-3) by (simp add: processAuthMsg_def)
  let ?ok = "Write Downstream
               (Marshal_userAuthPubKeyOkMsg \<lparr>okAlgo = Type downKey, okPubKey = Marshal downKey\<rparr>)"
  let ?acked = "pipe\<lparr>upstream := u,
                      downstream := (downstream pipe)\<lparr>wcap := wcap (downstream pipe) - 1\<rparr>,
                      log := log pipe @ [?ok]\<rparr>"
  have a: "ok \<and> 0 < wcap (downstream pipe) \<longrightarrow>
             validAndAck lib mappedUser (PublicKey signer) downKey pipe = (Inr None, ?acked)"
    using assms(4) by (simp add: validAndAck_def d_writePacket_def t_writePacket_def)
  have b: "ok \<and> wcap (downstream pipe) = 0 \<longrightarrow>
             validAndAck lib mappedUser (PublicKey signer) downKey pipe
               = (Inl WriteFailed, pipe\<lparr>upstream := u\<rparr>)"
    using assms(4) by (simp add: validAndAck_def d_writePacket_def t_writePacket_def)
  have c: "\<not> ok \<longrightarrow>
             validAndAck lib mappedUser (PublicKey signer) downKey pipe
               = (Inr (Some (noneAuthMsg mappedUser)), pipe\<lparr>upstream := u\<rparr>)"
    using assms(4) by (simp add: validAndAck_def)
  have t: "ok \<and> 0 < wcap (downstream pipe) \<longrightarrow>
             (\<exists>evs. log (snd (pipeAuth_turn lib piper mappedUser msg pipe)) = log pipe @ ?ok # evs
                \<and> list_all (\<lambda>e. \<exists>p. e = Read Downstream p) evs)"
  proof
    assume h: "ok \<and> 0 < wcap (downstream pipe)"
    with a p have "pipeAuth_turn lib piper mappedUser msg pipe = pipeAuth_next ?acked"
      by (simp add: pipeAuth_turn_def)
    moreover obtain r s' where n: "pipeAuth_next ?acked = (r, s')"
      by (cases "pipeAuth_next ?acked")
    ultimately show "\<exists>evs. log (snd (pipeAuth_turn lib piper mappedUser msg pipe))
                       = log pipe @ ?ok # evs
                \<and> list_all (\<lambda>e. \<exists>p. e = Read Downstream p) evs"
      using pipeAuth_next_log [OF n] by auto
  qed
  show ?thesis using p a b c t by simp
qed

theorem processAuthMsg_query_acks_or_none_witness:
  "fst (processAuthMsg example_lib
          (example_piper (Some (\<lambda>d k. (Some (example_Signer ''ssh-ed25519''
                                               (example_blob ''ssh-ed25519'')), None))))
          ''bob''
          (publickey_request ''alice'' (query_payload ''ssh-rsa'' (example_blob ''ssh-rsa'')))
          (example_pipe [] [[msgUserAuthPubKeyOk]])) = Inr None
   \<and> log (snd (processAuthMsg example_lib
          (example_piper (Some (\<lambda>d k. (Some (example_Signer ''ssh-ed25519''
                                               (example_blob ''ssh-ed25519'')), None))))
          ''bob''
          (publickey_request ''alice'' (query_payload ''ssh-rsa'' (example_blob ''ssh-rsa'')))
          (example_pipe [] [[msgUserAuthPubKeyOk]])))
       = [Write Downstream
            (Marshal_userAuthPubKeyOkMsg
               \<lparr>okAlgo = ''ssh-rsa'', okPubKey = example_blob ''ssh-rsa''\<rparr>)]
   \<and> fst (processAuthMsg example_lib
          (example_piper (Some (\<lambda>d k. (Some (example_Signer ''ssh-ed25519''
                                               (example_blob ''ssh-ed25519'')), None))))
          ''bob''
          (publickey_request ''alice'' (query_payload ''ssh-rsa'' (example_blob ''ssh-rsa'')))
          (example_pipe [] [example_failure_packet])) = Inr (Some (noneAuthMsg ''bob''))"
proof -
  let ?signer = "example_Signer ''ssh-ed25519'' (example_blob ''ssh-ed25519'')"
  let ?f = "\<lambda>(d::connection) (k::PublicKey). (Some ?signer, None :: error option)"
  let ?msg = "publickey_request ''alice'' (query_payload ''ssh-rsa'' (example_blob ''ssh-rsa''))"
  let ?key = "example_PublicKey ''ssh-rsa'' (example_blob ''ssh-rsa'')"
  have h1: "MapPublicKey (example_piper (Some ?f)) = Some ?f"
    by (simp add: example_piper_def)
  have h2: "parsePublicKeyMsg example_lib ?msg = Inr (?key, True, None)"
    using example_parse_query [of "''alice''" "[]"] by simp
  have h3: "?f (downstream pipe) ?key = (Some ?signer, None)" for pipe
    by simp
  have yes: "validateKey example_lib (PublicKey ?signer) ''bob''
               (upstream (example_pipe [] [[msgUserAuthPubKeyOk]]))
             = ((True, None),
                (upstream (example_pipe [] [[msgUserAuthPubKeyOk]]))\<lparr>rx := [], wcap := 9\<rparr>)"
    by (simp add: example_lib_simps example_validateKey_answer)
  have no: "validateKey example_lib (PublicKey ?signer) ''bob''
               (upstream (example_pipe [] [example_failure_packet]))
             = ((False, None),
                (upstream (example_pipe [] [example_failure_packet]))\<lparr>rx := [], wcap := 9\<rparr>)"
    by (simp add: example_lib_simps example_validateKey_answer example_failure_packet_def
        Marshal_userAuthFailureMsg_def msgUserAuthFailure_def msgUserAuthPubKeyOk_def)
  have w: "0 < wcap (downstream (example_pipe [] ps))" for ps
    by (simp add: example_pipe_def example_conn_def)
  show ?thesis
    using processAuthMsg_query_acks_or_none [OF h1 h2 h3 yes]
      processAuthMsg_query_acks_or_none [OF h1 h2 h3 no] w
    by (simp add: example_PublicKey_def example_pipe_def)
qed

section \<open>The shape of a publickey payload\<close>

text \<open>
  C6. The code at the input where it leaves the claim: a payload in query form
  (leading byte 0) with bytes after the public-key blob parses successfully, as a
  query, and the bytes are dropped. The same bytes after the signature of a payload in
  signed form are a parse error.
\<close>

theorem parsePublicKeyMsg_query_accepts_trailing_bytes:
  "parsePublicKeyMsg example_lib
     (publickey_request ''alice''
        (query_payload ''ssh-rsa'' (example_blob ''ssh-rsa'') @ ''trailing bytes''))
     = Inr (example_PublicKey ''ssh-rsa'' (example_blob ''ssh-rsa''), True, None)
   \<and> parsePublicKeyMsg example_lib
       (publickey_request ''alice''
          (signed_payload ''ssh-rsa'' (example_blob ''ssh-rsa'')
             (example_Signature ''ssh-rsa'' ''down-sid'' ''alice'') @ ''trailing bytes''))
     = Inl (ParseError msgUserAuthRequest)"
proof -
  have "parseSignature (marshalString (Marshal_Signature
            (example_Signature ''ssh-rsa'' ''down-sid'' ''alice'')) @ ''trailing bytes'')
        = Some (example_Signature ''ssh-rsa'' ''down-sid'' ''alice'', ''trailing bytes'')"
    by (rule parseSignature_marshalString)
       (simp_all add: example_lengths example_Signature_def publickey_request_def
          serviceSSH_def)
  then have "parsePublicKeyMsg example_lib
       (publickey_request ''alice''
          (signed_payload ''ssh-rsa'' (example_blob ''ssh-rsa'')
             (example_Signature ''ssh-rsa'' ''down-sid'' ''alice'') @ ''trailing bytes''))
     = Inl (ParseError msgUserAuthRequest)"
    by (simp add: parsePublicKeyMsg_def publickey_request_def signed_payload_def
        marshalBool_def parseString_marshalString example_lengths example_lib_simps
        example_lib_ParsePublicKey)
  then show ?thesis
    using example_parse_query [of "''alice''" "''trailing bytes''"] by simp
qed

section \<open>The user name of a forwarded request\<close>

text \<open>
  C1. The code at the input where it leaves the claim: the mapped user is \<open>bob\<close>,
  the downstream asks as \<open>alice\<close> with a key that \<^verbatim>\<open>MapPublicKey\<close> maps to no
  signer. The "none" request that the relay writes to the upstream carries the user
  \<open>alice\<close>.
\<close>

theorem processAuthMsg_unmapped_key_forwards_downstream_user:
  "processAuthMsg example_lib (example_piper (Some (\<lambda>d k. (None, None)))) ''bob''
     (publickey_request ''alice'' (query_payload ''ssh-rsa'' (example_blob ''ssh-rsa'')))
     (example_pipe [] [example_failure_packet])
     = (Inr (Some (noneAuthMsg ''alice'')), example_pipe [] [example_failure_packet])
   \<and> log (snd (pipeAuth_turn example_lib (example_piper (Some (\<lambda>d k. (None, None)))) ''bob''
        (publickey_request ''alice'' (query_payload ''ssh-rsa'' (example_blob ''ssh-rsa'')))
        (example_pipe [] [example_failure_packet])))
     = [Write Upstream (Marshal_userAuthRequestMsg (noneAuthMsg ''alice'')),
        Read Upstream example_failure_packet,
        Write Downstream example_failure_packet]
   \<and> User (noneAuthMsg ''alice'') \<noteq> ''bob''"
proof -
  let ?piper = "example_piper (Some (\<lambda>d k. (None, None)))"
  let ?msg = "publickey_request ''alice'' (query_payload ''ssh-rsa'' (example_blob ''ssh-rsa''))"
  let ?pipe = "example_pipe [] [example_failure_packet]"
  have h2: "parsePublicKeyMsg example_lib ?msg
              = Inr (example_PublicKey ''ssh-rsa'' (example_blob ''ssh-rsa''), True, None)"
    using example_parse_query [of "''alice''" "[]"] by simp
  have p: "processAuthMsg example_lib ?piper ''bob'' ?msg ?pipe
             = (Inr (Some (noneAuthMsg ''alice'')), ?pipe)"
    using h2 by (simp add: processAuthMsg_def example_piper_def)
       (simp add: publickey_request_def)
  have f: "log (snd (pipeAuth_forward (noneAuthMsg ''alice'') ?pipe))
             = [Write Upstream (Marshal_userAuthRequestMsg (noneAuthMsg ''alice'')),
                Read Upstream example_failure_packet,
                Write Downstream example_failure_packet]"
    by (simp add: pipeAuth_forward_def u_writePacket_def u_readPacket_def d_writePacket_def
        t_writePacket_def t_readPacket_def example_pipe_def example_conn_def
        example_failure_packet_def Marshal_userAuthFailureMsg_def msgUserAuthFailure_def
        msgUserAuthSuccess_def pipeAuth_next_def nextAuthMsg_def d_readPacket_def)
  show ?thesis
    using p f by (simp add: pipeAuth_turn_def noneAuthMsg_def)
qed

section \<open>The downstream signature\<close>

text \<open>
  The transform has two regimes. For a method other than publickey, and for every
  request when no \<^verbatim>\<open>MapPublicKey\<close> callback is configured, it is the pass-through
  that replaces the user and nothing else. The check of the downstream signature
  belongs to the other regime, the one with remapping.
\<close>

lemma processAuthMsg_pass_through:
  "Method msg \<noteq> ''publickey'' \<or> MapPublicKey piper = None \<Longrightarrow>
     processAuthMsg lib piper mappedUser msg pipe
       = (Inr (Some (msg\<lparr>User := mappedUser\<rparr>)), pipe)"
  by (auto simp: processAuthMsg_def)



section \<open>Algorithms off the allow-list\<close>

text \<open>
  C5, as stated, fails when the algorithm named in the request is off the allow-list:
  \<^verbatim>\<open>parsePublicKeyMsg\<close> returns an error, the transform returns it, and the relay
  loop returns it from \<^verbatim>\<open>pipeAuth\<close> without writing anything to the upstream.
\<close>

theorem pipeAuth_unacceptable_algorithm_aborts:
  "\<not> isAcceptableAlgo example_lib (Format dss_Signature)
   \<and> pipeAuth_loop example_lib
       (example_piper (Some (\<lambda>d k. (Some (example_Signer ''ssh-ed25519''
                                            (example_blob ''ssh-ed25519'')), None))))
       ''bob''
       (publickey_request ''alice''
          (signed_payload ''ssh-dss'' (example_blob ''ssh-dss'') dss_Signature))
       (example_pipe [] [example_failure_packet])
     = (Some (AlgoNotAccepted ''ssh-dss''), example_pipe [] [example_failure_packet])"
proof -
  let ?piper = "example_piper (Some (\<lambda>d k. (Some (example_Signer ''ssh-ed25519''
                                            (example_blob ''ssh-ed25519'')), None)))"
  let ?msg = "publickey_request ''alice''
          (signed_payload ''ssh-dss'' (example_blob ''ssh-dss'') dss_Signature)"
  let ?pipe = "example_pipe [] [example_failure_packet]"
  have a: "\<not> isAcceptableAlgo example_lib ''ssh-dss''"
    by (simp add: example_lib_simps)
  have "parsePublicKeyMsg example_lib ?msg = Inl (AlgoNotAccepted ''ssh-dss'')"
    using a
    by (subst parsePublicKeyMsg_signed_payload)
       (simp_all add: example_lengths dss_Signature_def)
  then have "processAuthMsg example_lib ?piper ''bob'' ?msg ?pipe
               = (Inl (AlgoNotAccepted ''ssh-dss''), ?pipe)"
    by (simp add: processAuthMsg_def example_piper_def) (simp add: publickey_request_def)
  then have "pipeAuth_loop example_lib ?piper ''bob'' ?msg ?pipe
               = (Some (AlgoNotAccepted ''ssh-dss''), ?pipe)"
    by (subst pipeAuth_loop.simps) (simp add: pipeAuth_turn_def)
  with a show ?thesis by (simp add: dss_Signature_def)
qed

text \<open>
  C5, amended. With a \<^verbatim>\<open>MapPublicKey\<close> callback: a request in signed form that
  parses and whose key maps to a signer, with a signature whose format is off the
  allow-list, is answered as a failed verification, by a "none" request with an
  empty payload; a request whose algorithm field is off the allow-list makes the
  transform, and with it the relay loop, return the error
  \<^verbatim>\<open>algorithm not accepted\<close>.
\<close>

theorem processAuthMsg_unacceptable_algorithm:
  assumes "MapPublicKey piper = Some mapPublicKey"
  shows "(parsePublicKeyMsg lib msg = Inr (downKey, False, Some downSig)
            \<and> mapPublicKey (downstream pipe) downKey = (Some signer, None)
            \<and> \<not> isAcceptableAlgo lib (Format downSig) \<longrightarrow>
          (\<exists>fwd. processAuthMsg lib piper mappedUser msg pipe = (Inr (Some fwd), pipe)
             \<and> Method fwd = ''none'' \<and> Payload fwd = []))
       \<and> (Method msg = ''publickey'' \<and> Payload msg = b # rest
            \<and> parseString rest = Some (algo, rest') \<and> \<not> isAcceptableAlgo lib algo \<longrightarrow>
          processAuthMsg lib piper mappedUser msg pipe = (Inl (AlgoNotAccepted algo), pipe)
          \<and> pipeAuth_loop lib piper mappedUser msg pipe = (Some (AlgoNotAccepted algo), pipe))"
proof (intro conjI impI)
  assume h: "parsePublicKeyMsg lib msg = Inr (downKey, False, Some downSig)
            \<and> mapPublicKey (downstream pipe) downKey = (Some signer, None)
            \<and> \<not> isAcceptableAlgo lib (Format downSig)"
  then have m: "Method msg = ''publickey''"
    by (auto simp: parsePublicKeyMsg_def split: if_splits)
  have "checkPublicKey lib msg downKey downSig pipe = (False, None)"
    using h by (simp add: checkPublicKey_def)
  then have "processAuthMsg lib piper mappedUser msg pipe
               = (Inr (Some (noneAuthMsg (User msg))), pipe)"
    using m h assms by (simp add: processAuthMsg_def)
  then show "\<exists>fwd. processAuthMsg lib piper mappedUser msg pipe = (Inr (Some fwd), pipe)
             \<and> Method fwd = ''none'' \<and> Payload fwd = []"
    by (simp add: noneAuthMsg_def)
next
  assume h: "Method msg = ''publickey'' \<and> Payload msg = b # rest
            \<and> parseString rest = Some (algo, rest') \<and> \<not> isAcceptableAlgo lib algo"
  then have "parsePublicKeyMsg lib msg = Inl (AlgoNotAccepted algo)"
    by (simp add: parsePublicKeyMsg_def)
  with h assms show p: "processAuthMsg lib piper mappedUser msg pipe
                          = (Inl (AlgoNotAccepted algo), pipe)"
    by (simp add: processAuthMsg_def)
  then show "pipeAuth_loop lib piper mappedUser msg pipe = (Some (AlgoNotAccepted algo), pipe)"
    by (subst pipeAuth_loop.simps) (simp add: pipeAuth_turn_def)
qed

theorem processAuthMsg_unacceptable_algorithm_witness:
  "parsePublicKeyMsg example_lib
     (publickey_request ''alice''
        (signed_payload ''ssh-rsa'' (example_blob ''ssh-rsa'') dss_Signature))
     = Inr (example_PublicKey ''ssh-rsa'' (example_blob ''ssh-rsa''), False, Some dss_Signature)
   \<and> \<not> isAcceptableAlgo example_lib (Format dss_Signature)
   \<and> (\<exists>fwd. processAuthMsg example_lib
         (example_piper (Some (\<lambda>d k. (Some (example_Signer ''ssh-ed25519''
                                              (example_blob ''ssh-ed25519'')), None))))
         ''bob''
         (publickey_request ''alice''
            (signed_payload ''ssh-rsa'' (example_blob ''ssh-rsa'') dss_Signature))
         (example_pipe [] []) = (Inr (Some fwd), example_pipe [] [])
        \<and> Method fwd = ''none'' \<and> Payload fwd = [])
   \<and> parseString (marshalString ''ssh-dss'' @ marshalString (example_blob ''ssh-dss''))
       = Some (''ssh-dss'', marshalString (example_blob ''ssh-dss''))
   \<and> \<not> isAcceptableAlgo example_lib ''ssh-dss''
   \<and> pipeAuth_loop example_lib
       (example_piper (Some (\<lambda>d k. (Some (example_Signer ''ssh-ed25519''
                                            (example_blob ''ssh-ed25519'')), None))))
       ''bob''
       (publickey_request ''alice'' (query_payload ''ssh-dss'' (example_blob ''ssh-dss'')))
       (example_pipe [] [])
     = (Some (AlgoNotAccepted ''ssh-dss''), example_pipe [] [])"
proof -
  let ?signer = "example_Signer ''ssh-ed25519'' (example_blob ''ssh-ed25519'')"
  let ?f = "\<lambda>(d::connection) (k::PublicKey). (Some ?signer, None :: error option)"
  let ?msg = "publickey_request ''alice''
          (signed_payload ''ssh-rsa'' (example_blob ''ssh-rsa'') dss_Signature)"
  let ?key = "example_PublicKey ''ssh-rsa'' (example_blob ''ssh-rsa'')"
  let ?q = "publickey_request ''alice'' (query_payload ''ssh-dss'' (example_blob ''ssh-dss''))"
  have h1: "MapPublicKey (example_piper (Some ?f)) = Some ?f"
    by (simp add: example_piper_def)
  have h2: "parsePublicKeyMsg example_lib ?msg = Inr (?key, False, Some dss_Signature)"
    by (rule example_parse_signed) (simp_all add: dss_Signature_def)
  have h3: "?f (downstream (example_pipe [] [])) ?key = (Some ?signer, None)"
    by simp
  have h4: "\<not> isAcceptableAlgo example_lib (Format dss_Signature)"
    by (simp add: example_lib_simps dss_Signature_def)
  have q1: "Method ?q = ''publickey''"
    and q2: "Payload ?q = CHR 0x00 #
               (marshalString ''ssh-dss'' @ marshalString (example_blob ''ssh-dss''))"
    by (simp_all add: publickey_request_def query_payload_def marshalBool_def)
  have q3: "parseString (marshalString ''ssh-dss'' @ marshalString (example_blob ''ssh-dss''))
              = Some (''ssh-dss'', marshalString (example_blob ''ssh-dss''))"
    by (simp add: parseString_marshalString)
  have q4: "\<not> isAcceptableAlgo example_lib ''ssh-dss''"
    by (simp add: example_lib_simps)
  show ?thesis
    using processAuthMsg_unacceptable_algorithm [OF h1, where lib = example_lib
            and msg = ?msg and downKey = ?key and downSig = dss_Signature
            and pipe = "example_pipe [] []" and signer = ?signer and mappedUser = "''bob''"]
      processAuthMsg_unacceptable_algorithm [OF h1, where lib = example_lib
            and msg = ?q and pipe = "example_pipe [] []" and mappedUser = "''bob''"
            and b = "CHR 0x00"
            and rest = "marshalString ''ssh-dss'' @ marshalString (example_blob ''ssh-dss'')"
            and algo = "''ssh-dss''" and rest' = "marshalString (example_blob ''ssh-dss'')"]
      h2 h3 h4 q1 q2 q3 q4
    by simp
qed

section \<open>The relay loop, turn by turn\<close>

text \<open>
  What a turn leaves in the log when it forwards, and how the loop can end with the
  nil error: only behind a reply whose first byte is \<^verbatim>\<open>SSH_MSG_USERAUTH_SUCCESS\<close>.
\<close>

lemma pipeAuth_next_not_success: "pipeAuth_next s \<noteq> (Inl None, s')"
  by (auto simp: pipeAuth_next_def split: prod.splits sum.splits)

lemma pipeAuth_next_log_one:
  "pipeAuth_next s = (r, s') \<Longrightarrow>
     \<exists>evs. log s' = log s @ evs \<and> list_all (\<lambda>e. \<exists>p. e = Read Downstream p) evs
        \<and> length evs \<le> 1"
  by (auto simp: pipeAuth_next_def nextAuthMsg_def d_readPacket_def t_readPacket_def
      split: prod.splits sum.splits list.splits option.splits if_splits)

lemma pipeAuth_forward_steps:
  assumes "0 < wcap (upstream s)" "rx (upstream s) = reply # later" "reply \<noteq> []"
    "0 < wcap (downstream s)"
  shows "pipeAuth_forward fwd s =
           (let s' = s\<lparr>upstream := (upstream s)\<lparr>wcap := wcap (upstream s) - 1, rx := later\<rparr>,
                       downstream := (downstream s)\<lparr>wcap := wcap (downstream s) - 1\<rparr>,
                       log := log s @ [Write Upstream (Marshal_userAuthRequestMsg fwd),
                                       Read Upstream reply, Write Downstream reply]\<rparr>
            in if hd reply = msgUserAuthSuccess then (Inl None, s') else pipeAuth_next s')"
  using assms
  by (cases reply)
     (simp_all add: pipeAuth_forward_def u_writePacket_def u_readPacket_def d_writePacket_def
        t_writePacket_def t_readPacket_def Let_def)

lemma pipeAuth_forward_success:
  assumes "pipeAuth_forward fwd s = (Inl None, s')"
  shows "\<exists>pre r. log s' = pre @ [Read Upstream r, Write Downstream r] \<and> r \<noteq> []
           \<and> hd r = msgUserAuthSuccess"
proof -
  from assms obtain s1 s2 r where
    w: "u_writePacket (Marshal_userAuthRequestMsg fwd) s = (None, s1)" and
    rd: "u_readPacket s1 = (Inr r, s2)" and
    ne: "r \<noteq> []" and
    d: "d_writePacket r s2 = (None, s')" and
    h: "hd r = msgUserAuthSuccess"
    by (auto simp: pipeAuth_forward_def Let_def pipeAuth_next_not_success
        split: prod.splits option.splits sum.splits list.splits if_splits)
  from rd have "log s2 = log s1 @ [Read Upstream r]"
    by (auto simp: u_readPacket_def t_readPacket_def split: list.splits)
  moreover from d have "log s' = log s2 @ [Write Downstream r]"
    by (auto simp: d_writePacket_def t_writePacket_def split: if_splits)
  ultimately have "log s' = log s1 @ [Read Upstream r, Write Downstream r]" by simp
  with ne h show ?thesis by blast
qed

lemma pipeAuth_turn_success:
  assumes "pipeAuth_turn lib piper mappedUser m s = (Inl None, s')"
  shows "\<exists>pre r. log s' = pre @ [Read Upstream r, Write Downstream r] \<and> r \<noteq> []
           \<and> hd r = msgUserAuthSuccess"
proof -
  from assms obtain fwd s1 where "pipeAuth_forward fwd s1 = (Inl None, s')"
    by (auto simp: pipeAuth_turn_def pipeAuth_next_not_success
        split: prod.splits sum.splits option.splits)
  then show ?thesis by (rule pipeAuth_forward_success)
qed

lemma pipeAuth_loop_success:
  "pipeAuth_loop lib piper mappedUser m s = (None, s') \<Longrightarrow>
     \<exists>pre r. log s' = pre @ [Read Upstream r, Write Downstream r] \<and> r \<noteq> []
        \<and> hd r = msgUserAuthSuccess"
proof (induction lib piper mappedUser m s rule: pipeAuth_loop.induct)
  case (1 lib piper mappedUser userAuthMsg pipe)
  obtain res pipe1 where t: "pipeAuth_turn lib piper mappedUser userAuthMsg pipe = (res, pipe1)"
    by (cases "pipeAuth_turn lib piper mappedUser userAuthMsg pipe")
  show ?case
  proof (cases res)
    case (Inl r)
    with t "1.prems" have "r = None" "pipe1 = s'"
      by (subst (asm) pipeAuth_loop.simps, simp)+
    with t Inl show ?thesis using pipeAuth_turn_success by blast
  next
    case (Inr m')
    with t "1.prems" have "pipeAuth_loop lib piper mappedUser m' pipe1 = (None, s')"
      by (subst (asm) pipeAuth_loop.simps) simp
    with "1.IH" [OF t [symmetric] Inr] show ?thesis by blast
  qed
qed

lemma processAuthMsg_forward_state:
  "processAuthMsg lib piper mappedUser m s = (Inr (Some fwd), s') \<Longrightarrow>
     log s' = log s \<and> downstream s' = downstream s"
  by (auto simp: processAuthMsg_def validAndAck_def Let_def d_writePacket_def
      t_writePacket_def split: if_splits option.splits sum.splits prod.splits bool.splits)

text \<open>
  C7. A turn of the relay loop whose transform returns a request \<open>fwd\<close>, on
  connections that take the writes and with a reply waiting on the upstream: the turn
  writes \<open>fwd\<close> to the upstream, reads that one reply from the upstream (the packets
  behind it stay queued), and writes the reply, byte for byte, to the downstream; what
  the turn does after that is at most one read from the downstream. The turn returns
  the nil error exactly when the first byte of the reply is
  \<^verbatim>\<open>SSH_MSG_USERAUTH_SUCCESS\<close>, and then so does the loop; otherwise it goes on to
  read the next downstream request. Whenever the loop returns the nil error, the last
  two things it did were to read a reply of that type from the upstream and to write
  it to the downstream.
\<close>

theorem pipeAuth_turn_sequential:
  assumes "processAuthMsg lib piper mappedUser msg pipe = (Inr (Some fwd), pipe1)"
    and "0 < wcap (upstream pipe1)" and "rx (upstream pipe1) = reply # later"
    and "reply \<noteq> []" and "0 < wcap (downstream pipe1)"
  shows "(\<exists>pipe2.
           log pipe2 = log pipe @ [Write Upstream (Marshal_userAuthRequestMsg fwd),
                                   Read Upstream reply, Write Downstream reply]
         \<and> rx (upstream pipe2) = later
         \<and> rx (downstream pipe2) = rx (downstream pipe)
         \<and> pipeAuth_turn lib piper mappedUser msg pipe
             = (if hd reply = msgUserAuthSuccess then (Inl None, pipe2) else pipeAuth_next pipe2)
         \<and> (\<exists>evs. log (snd (pipeAuth_turn lib piper mappedUser msg pipe)) = log pipe2 @ evs
               \<and> list_all (\<lambda>e. \<exists>p. e = Read Downstream p) evs \<and> length evs \<le> 1)
         \<and> (fst (pipeAuth_turn lib piper mappedUser msg pipe) = Inl None
               \<longleftrightarrow> hd reply = msgUserAuthSuccess)
         \<and> (hd reply = msgUserAuthSuccess \<longrightarrow>
               pipeAuth_loop lib piper mappedUser msg pipe = (None, pipe2)))
       \<and> (\<forall>pipe'. pipeAuth_loop lib piper mappedUser msg pipe = (None, pipe') \<longrightarrow>
           (\<exists>pre r. log pipe' = pre @ [Read Upstream r, Write Downstream r] \<and> r \<noteq> []
              \<and> hd r = msgUserAuthSuccess))"
proof -
  let ?p2 = "pipe1\<lparr>upstream := (upstream pipe1)\<lparr>wcap := wcap (upstream pipe1) - 1, rx := later\<rparr>,
                   downstream := (downstream pipe1)\<lparr>wcap := wcap (downstream pipe1) - 1\<rparr>,
                   log := log pipe1 @ [Write Upstream (Marshal_userAuthRequestMsg fwd),
                                       Read Upstream reply, Write Downstream reply]\<rparr>"
  have st: "log pipe1 = log pipe" "downstream pipe1 = downstream pipe"
    using processAuthMsg_forward_state [OF assms(1)] by simp_all
  have t: "pipeAuth_turn lib piper mappedUser msg pipe
             = (if hd reply = msgUserAuthSuccess then (Inl None, ?p2) else pipeAuth_next ?p2)"
    using assms(1) pipeAuth_forward_steps [OF assms(2-5), of fwd]
    by (simp add: pipeAuth_turn_def Let_def)
  have l: "log ?p2 = log pipe @ [Write Upstream (Marshal_userAuthRequestMsg fwd),
                                   Read Upstream reply, Write Downstream reply]"
    using st by simp
  have e: "\<exists>evs. log (snd (pipeAuth_turn lib piper mappedUser msg pipe)) = log ?p2 @ evs
               \<and> list_all (\<lambda>e. \<exists>p. e = Read Downstream p) evs \<and> length evs \<le> 1"
  proof (cases "hd reply = msgUserAuthSuccess")
    case True
    with t show ?thesis by simp
  next
    case False
    obtain r s' where n: "pipeAuth_next ?p2 = (r, s')" by (cases "pipeAuth_next ?p2")
    from pipeAuth_next_log_one [OF n] t False n show ?thesis by simp
  qed
  have f: "fst (pipeAuth_turn lib piper mappedUser msg pipe) = Inl None
               \<longleftrightarrow> hd reply = msgUserAuthSuccess"
  proof (cases "hd reply = msgUserAuthSuccess")
    case True
    with t show ?thesis by simp
  next
    case False
    obtain r s' where n: "pipeAuth_next ?p2 = (r, s')" by (cases "pipeAuth_next ?p2")
    with pipeAuth_next_not_success [of ?p2 s'] have "r \<noteq> Inl None" by auto
    with t False n show ?thesis by simp
  qed
  have g: "hd reply = msgUserAuthSuccess \<longrightarrow>
             pipeAuth_loop lib piper mappedUser msg pipe = (None, ?p2)"
    using t by (subst pipeAuth_loop.simps) simp
  have a: "\<forall>pipe'. pipeAuth_loop lib piper mappedUser msg pipe = (None, pipe') \<longrightarrow>
           (\<exists>pre r. log pipe' = pre @ [Read Upstream r, Write Downstream r] \<and> r \<noteq> []
              \<and> hd r = msgUserAuthSuccess)"
    using pipeAuth_loop_success by blast
  have "log ?p2 = log pipe @ [Write Upstream (Marshal_userAuthRequestMsg fwd),
                                   Read Upstream reply, Write Downstream reply]
         \<and> rx (upstream ?p2) = later
         \<and> rx (downstream ?p2) = rx (downstream pipe)
         \<and> pipeAuth_turn lib piper mappedUser msg pipe
             = (if hd reply = msgUserAuthSuccess then (Inl None, ?p2) else pipeAuth_next ?p2)
         \<and> (\<exists>evs. log (snd (pipeAuth_turn lib piper mappedUser msg pipe)) = log ?p2 @ evs
               \<and> list_all (\<lambda>e. \<exists>p. e = Read Downstream p) evs \<and> length evs \<le> 1)
         \<and> (fst (pipeAuth_turn lib piper mappedUser msg pipe) = Inl None
               \<longleftrightarrow> hd reply = msgUserAuthSuccess)
         \<and> (hd reply = msgUserAuthSuccess \<longrightarrow>
               pipeAuth_loop lib piper mappedUser msg pipe = (None, ?p2))"
    using l t e f g st by simp
  then have "\<exists>pipe2.
           log pipe2 = log pipe @ [Write Upstream (Marshal_userAuthRequestMsg fwd),
                                   Read Upstream reply, Write Downstream reply]
         \<and> rx (upstream pipe2) = later
         \<and> rx (downstream pipe2) = rx (downstream pipe)
         \<and> pipeAuth_turn lib piper mappedUser msg pipe
             = (if hd reply = msgUserAuthSuccess then (Inl None, pipe2) else pipeAuth_next pipe2)
         \<and> (\<exists>evs. log (snd (pipeAuth_turn lib piper mappedUser msg pipe)) = log pipe2 @ evs
               \<and> list_all (\<lambda>e. \<exists>p. e = Read Downstream p) evs \<and> length evs \<le> 1)
         \<and> (fst (pipeAuth_turn lib piper mappedUser msg pipe) = Inl None
               \<longleftrightarrow> hd reply = msgUserAuthSuccess)
         \<and> (hd reply = msgUserAuthSuccess \<longrightarrow>
               pipeAuth_loop lib piper mappedUser msg pipe = (None, pipe2))"
    by (rule exI [of _ ?p2])
  with a show ?thesis by blast
qed


theorem pipeAuth_turn_sequential_witness:
  "pipeAuth_loop example_lib (example_piper None) ''bob''
     \<lparr>User = ''alice'', Service = serviceSSH, Method = ''password'', Payload = ''secret''\<rparr>
     (example_pipe [] [[msgUserAuthSuccess]])
     = (None,
        (example_pipe [] [[msgUserAuthSuccess]])
          \<lparr>upstream := (upstream (example_pipe [] [[msgUserAuthSuccess]]))\<lparr>wcap := 9, rx := []\<rparr>,
           downstream := (downstream (example_pipe [] [[msgUserAuthSuccess]]))\<lparr>wcap := 9\<rparr>,
           log := [Write Upstream
                     (Marshal_userAuthRequestMsg
                        \<lparr>User = ''bob'', Service = serviceSSH, Method = ''password'',
                         Payload = ''secret''\<rparr>),
                   Read Upstream [msgUserAuthSuccess],
                   Write Downstream [msgUserAuthSuccess]]\<rparr>)
   \<and> pipeAuth_turn example_lib (example_piper None) ''bob''
       \<lparr>User = ''alice'', Service = serviceSSH, Method = ''password'', Payload = ''secret''\<rparr>
       (example_pipe [] [example_failure_packet])
     = (Inl (Some EOF),
        (example_pipe [] [example_failure_packet])
          \<lparr>upstream := (upstream (example_pipe [] [example_failure_packet]))\<lparr>wcap := 9, rx := []\<rparr>,
           downstream := (downstream (example_pipe [] [example_failure_packet]))\<lparr>wcap := 9\<rparr>,
           log := [Write Upstream
                     (Marshal_userAuthRequestMsg
                        \<lparr>User = ''bob'', Service = serviceSSH, Method = ''password'',
                         Payload = ''secret''\<rparr>),
                   Read Upstream example_failure_packet,
                   Write Downstream example_failure_packet]\<rparr>)"
proof -
  let ?msg = "\<lparr>User = ''alice'', Service = serviceSSH, Method = ''password'',
               Payload = ''secret''\<rparr>"
  let ?fwd = "\<lparr>User = ''bob'', Service = serviceSSH, Method = ''password'',
               Payload = ''secret''\<rparr>"
  have p: "processAuthMsg example_lib (example_piper None) ''bob'' ?msg pipe
             = (Inr (Some ?fwd), pipe)" for pipe
    by (simp add: processAuthMsg_def)
  have c: "0 < wcap (upstream (example_pipe [] ps))" "0 < wcap (downstream (example_pipe [] ps))"
    "rx (upstream (example_pipe [] [q])) = q # []" for ps q
    by (simp_all add: example_pipe_def example_conn_def)
  have ne: "[msgUserAuthSuccess] \<noteq> []" "example_failure_packet \<noteq> []"
    by (simp_all add: example_failure_packet_def Marshal_userAuthFailureMsg_def)
  have hd: "hd [msgUserAuthSuccess] = msgUserAuthSuccess"
    "hd example_failure_packet \<noteq> msgUserAuthSuccess"
    by (simp_all add: example_failure_packet_def Marshal_userAuthFailureMsg_def
        msgUserAuthFailure_def msgUserAuthSuccess_def)
  have n: "pipeAuth_next s = (Inl (Some EOF), s)" if "rx (downstream s) = []" for s :: pipedConn
    using that
    by (simp add: pipeAuth_next_def nextAuthMsg_def d_readPacket_def t_readPacket_def)
  have e: "rx (downstream (example_pipe [] ps)) = []" for ps
    by (simp add: example_pipe_def example_conn_def)
  from pipeAuth_turn_sequential [OF p c(1) c(3) ne(1) c(2)] hd(1)
  obtain pipe2 where
    a1: "log pipe2 = log (example_pipe [] [[msgUserAuthSuccess]])
            @ [Write Upstream (Marshal_userAuthRequestMsg ?fwd),
               Read Upstream [msgUserAuthSuccess], Write Downstream [msgUserAuthSuccess]]"
    and a2: "pipeAuth_loop example_lib (example_piper None) ''bob'' ?msg
               (example_pipe [] [[msgUserAuthSuccess]]) = (None, pipe2)"
    by auto
  from pipeAuth_turn_sequential [OF p c(1) c(3) ne(2) c(2)] hd(2)
  obtain pipe3 where
    b1: "rx (downstream pipe3) = rx (downstream (example_pipe [] [example_failure_packet]))"
    and b2: "pipeAuth_turn example_lib (example_piper None) ''bob'' ?msg
               (example_pipe [] [example_failure_packet]) = pipeAuth_next pipe3"
    by auto
  have b3: "fst (pipeAuth_turn example_lib (example_piper None) ''bob'' ?msg
               (example_pipe [] [example_failure_packet])) = Inl (Some EOF)"
    using b1 b2 n [of pipe3] e by simp
  have l: "pipeAuth_loop example_lib (example_piper None) ''bob'' ?msg
             (example_pipe [] [[msgUserAuthSuccess]])
           = (None,
        (example_pipe [] [[msgUserAuthSuccess]])
          \<lparr>upstream := (upstream (example_pipe [] [[msgUserAuthSuccess]]))\<lparr>wcap := 9, rx := []\<rparr>,
           downstream := (downstream (example_pipe [] [[msgUserAuthSuccess]]))\<lparr>wcap := 9\<rparr>,
           log := [Write Upstream (Marshal_userAuthRequestMsg ?fwd),
                   Read Upstream [msgUserAuthSuccess],
                   Write Downstream [msgUserAuthSuccess]]\<rparr>)"
    using pipeAuth_forward_steps [OF c(1) c(3) ne(1) c(2), of ?fwd]
    by (subst pipeAuth_loop.simps)
       (simp add: pipeAuth_turn_def p Let_def, simp add: example_pipe_def example_conn_def)
  have t: "pipeAuth_turn example_lib (example_piper None) ''bob'' ?msg
       (example_pipe [] [example_failure_packet])
     = (Inl (Some EOF),
        (example_pipe [] [example_failure_packet])
          \<lparr>upstream := (upstream (example_pipe [] [example_failure_packet]))\<lparr>wcap := 9, rx := []\<rparr>,
           downstream := (downstream (example_pipe [] [example_failure_packet]))\<lparr>wcap := 9\<rparr>,
           log := [Write Upstream (Marshal_userAuthRequestMsg ?fwd),
                   Read Upstream example_failure_packet,
                   Write Downstream example_failure_packet]\<rparr>)"
    using pipeAuth_forward_steps [OF c(1) c(3) ne(2) c(2), of ?fwd] hd(2)
    by (simp add: pipeAuth_turn_def p Let_def n e, simp add: example_pipe_def example_conn_def)
  show ?thesis using l t a2 b3 by simp
qed

section \<open>What a run writes into the log\<close>

text \<open>
  Reading, writing, the handshakes, the relay loop and the loop that asks for
  keyboard-interactive add events of the transport to the log and nothing else. The
  block of the additional challenge adds the call of the callback as its last event,
  and the rest of \<^verbatim>\<open>NewSSHPiperConn\<close> starts with the call of \<^verbatim>\<open>FindUpstream\<close>.
\<close>

lemma io_ext_refl [simp]: "io_ext l l"
  by (simp add: io_ext_def)

lemma io_ext_trans: "io_ext a b \<Longrightarrow> io_ext b c \<Longrightarrow> io_ext a c"
  by (auto simp: io_ext_def)

lemma io_ext_snoc: "is_io e \<Longrightarrow> io_ext l (l @ [e])"
  by (simp add: io_ext_def)

lemma io_ext_snoc2: "io_ext a b \<Longrightarrow> is_io e \<Longrightarrow> io_ext a (b @ [e])"
  by (auto simp: io_ext_def)

lemma d_readPacket_io: "d_readPacket s = (r, s') \<Longrightarrow> io_ext (log s) (log s')"
  by (auto simp: d_readPacket_def t_readPacket_def io_ext_snoc split: list.splits)

lemma d_writePacket_io: "d_writePacket p s = (r, s') \<Longrightarrow> io_ext (log s) (log s')"
  by (auto simp: d_writePacket_def t_writePacket_def io_ext_snoc split: if_splits)

lemma u_readPacket_io: "u_readPacket s = (r, s') \<Longrightarrow> io_ext (log s) (log s')"
  by (auto simp: u_readPacket_def t_readPacket_def io_ext_snoc split: list.splits)

lemma u_writePacket_io: "u_writePacket p s = (r, s') \<Longrightarrow> io_ext (log s) (log s')"
  by (auto simp: u_writePacket_def t_writePacket_def io_ext_snoc split: if_splits)

lemma nextAuthMsg_io: "nextAuthMsg s = (r, s') \<Longrightarrow> io_ext (log s) (log s')"
  by (auto simp: nextAuthMsg_def split: prod.splits sum.splits option.splits if_splits
      dest: d_readPacket_io)

lemma processAuthMsg_io:
  "processAuthMsg lib piper mappedUser m s = (r, s') \<Longrightarrow> io_ext (log s) (log s')"
  by (auto simp: processAuthMsg_def validAndAck_def Let_def d_writePacket_def
      t_writePacket_def io_ext_snoc
      split: if_splits option.splits sum.splits prod.splits bool.splits)

lemma pipeAuth_next_io: "pipeAuth_next s = (r, s') \<Longrightarrow> io_ext (log s) (log s')"
  by (auto simp: pipeAuth_next_def split: prod.splits sum.splits dest: nextAuthMsg_io)

lemma pipeAuth_forward_io:
  assumes "pipeAuth_forward m s = (r, s')"
  shows "io_ext (log s) (log s')"
proof -
  obtain r1 s1 where w: "u_writePacket (Marshal_userAuthRequestMsg m) s = (r1, s1)"
    by (cases "u_writePacket (Marshal_userAuthRequestMsg m) s")
  note i1 = u_writePacket_io [OF w]
  show ?thesis
  proof (cases r1)
    case (Some e)
    with assms w i1 show ?thesis by (simp add: pipeAuth_forward_def)
  next
    case None
    obtain r2 s2 where rd: "u_readPacket s1 = (r2, s2)" by (cases "u_readPacket s1")
    note i2 = io_ext_trans [OF i1 u_readPacket_io [OF rd]]
    show ?thesis
    proof (cases r2)
      case (Inl e)
      with assms w None rd i2 show ?thesis by (simp add: pipeAuth_forward_def)
    next
      case (Inr packet)
      show ?thesis
      proof (cases packet)
        case Nil
        with assms w None rd Inr i2 show ?thesis by (simp add: pipeAuth_forward_def)
      next
        case (Cons t ts)
        obtain r3 s3 where d: "d_writePacket packet s2 = (r3, s3)"
          by (cases "d_writePacket packet s2")
        note i3 = io_ext_trans [OF i2 d_writePacket_io [OF d]]
        from assms w None rd Inr Cons d i3 show ?thesis
          by (auto simp: pipeAuth_forward_def Let_def split: option.splits if_splits
              dest: pipeAuth_next_io io_ext_trans)
      qed
    qed
  qed
qed

lemma pipeAuth_turn_io:
  assumes "pipeAuth_turn lib piper mappedUser m s = (r, s')"
  shows "io_ext (log s) (log s')"
proof -
  obtain r1 s1 where p: "processAuthMsg lib piper mappedUser m s = (r1, s1)"
    by (cases "processAuthMsg lib piper mappedUser m s")
  note i1 = processAuthMsg_io [OF p]
  from assms p have "s' = s1 \<or> pipeAuth_next s1 = (r, s')
                       \<or> (\<exists>m'. pipeAuth_forward m' s1 = (r, s'))"
    by (auto simp: pipeAuth_turn_def split: sum.splits option.splits)
  then show ?thesis
    using i1 pipeAuth_next_io pipeAuth_forward_io io_ext_trans by blast
qed

lemma pipeAuth_loop_io:
  "pipeAuth_loop lib piper mappedUser m s = (r, s') \<Longrightarrow> io_ext (log s) (log s')"
proof (induction lib piper mappedUser m s rule: pipeAuth_loop.induct)
  case (1 lib piper mappedUser userAuthMsg pipe)
  obtain res pipe1 where t: "pipeAuth_turn lib piper mappedUser userAuthMsg pipe = (res, pipe1)"
    by (cases "pipeAuth_turn lib piper mappedUser userAuthMsg pipe")
  note i1 = pipeAuth_turn_io [OF t]
  show ?case
  proof (cases res)
    case (Inl x)
    with t "1.prems" have "pipe1 = s'"
      by (subst (asm) pipeAuth_loop.simps) simp
    with i1 show ?thesis by simp
  next
    case (Inr m')
    with t "1.prems" have "pipeAuth_loop lib piper mappedUser m' pipe1 = (r, s')"
      by (subst (asm) pipeAuth_loop.simps) simp
    from "1.IH" [OF t [symmetric] Inr this] i1 show ?thesis
      by (rule io_ext_trans [rotated])
  qed
qed

lemma sendAuthReq_io:
  assumes "sendAuthReq s = (r, s')"
  shows "io_ext (log s) (log s')"
proof -
  obtain r1 s1 where w: "u_writePacket (Marshal_serviceRequestMsg serviceUserAuth) s = (r1, s1)"
    by (cases "u_writePacket (Marshal_serviceRequestMsg serviceUserAuth) s")
  obtain r2 s2 where rd: "u_readPacket s1 = (r2, s2)" by (cases "u_readPacket s1")
  from assms w rd have "s' = s1 \<or> s' = s2"
    by (auto simp: sendAuthReq_def split: option.splits sum.splits)
  with u_writePacket_io [OF w] u_readPacket_io [OF rd] show ?thesis
    using io_ext_trans by blast
qed

lemma pipeAuth_io:
  assumes "pipeAuth lib piper mappedUser m s = (r, s')"
  shows "io_ext (log s) (log s')"
proof -
  obtain r1 s1 where a: "sendAuthReq s = (r1, s1)" by (cases "sendAuthReq s")
  from assms a have "s' = s1 \<or> pipeAuth_loop lib piper mappedUser m s1 = (r, s')"
    by (auto simp: pipeAuth_def split: option.splits)
  with sendAuthReq_io [OF a] show ?thesis
    using pipeAuth_loop_io io_ext_trans by blast
qed


lemma d_handshake_steps_io:
  "d_exchangeVersions lib s = (r, s') \<Longrightarrow> io_ext (log s) (log s')"
  "d_requestKeyChange lib s = (r, s') \<Longrightarrow> io_ext (log s) (log s')"
  by (auto simp: d_exchangeVersions_def d_requestKeyChange_def io_ext_snoc split: prod.splits)

lemma u_handshake_steps_io:
  "u_exchangeVersions lib p = (r, p') \<Longrightarrow> io_ext (log p) (log p')"
  "u_requestKeyChange lib p = (r, p') \<Longrightarrow> io_ext (log p) (log p')"
  by (auto simp: u_exchangeVersions_def u_requestKeyChange_def io_ext_snoc split: prod.splits)

lemma serverHandshakeNoAuth_io:
  assumes "serverHandshakeNoAuth lib hs s = (r, s')"
  shows "io_ext (log s) (log s')"
proof -
  obtain r1 s1 where a: "d_exchangeVersions lib s = (r1, s1)"
    by (cases "d_exchangeVersions lib s")
  obtain r2 s2 where b: "d_requestKeyChange lib s1 = (r2, s2)"
    by (cases "d_requestKeyChange lib s1")
  obtain r3 s3 where c: "d_readPacket s2 = (r3, s3)" by (cases "d_readPacket s2")
  obtain r4 s4 where d: "d_readPacket s3 = (r4, s4)" by (cases "d_readPacket s3")
  obtain r5 s5 where e: "d_writePacket (Marshal_serviceAcceptMsg serviceUserAuth) s4 = (r5, s5)"
    by (cases "d_writePacket (Marshal_serviceAcceptMsg serviceUserAuth) s4")
  note i1 = d_handshake_steps_io(1) [OF a]
  note i2 = io_ext_trans [OF i1 d_handshake_steps_io(2) [OF b]]
  note i3 = io_ext_trans [OF i2 d_readPacket_io [OF c]]
  note i4 = io_ext_trans [OF i3 d_readPacket_io [OF d]]
  note i5 = io_ext_trans [OF i4 d_writePacket_io [OF e]]
  from assms a b c d e have "s' = s \<or> s' = s1 \<or> s' = s2 \<or> s' = s3 \<or> s' = s4 \<or> s' = s5"
    by (auto simp: serverHandshakeNoAuth_def
        split: if_splits option.splits sum.splits list.splits)
  with i1 i2 i3 i4 i5 show ?thesis by auto
qed

lemma clientHandshakeNoAuth_io:
  assumes "clientHandshakeNoAuth lib s = (r, s')"
  shows "io_ext (log s) (log s')"
proof -
  obtain r1 s1 where a: "u_exchangeVersions lib s = (r1, s1)"
    by (cases "u_exchangeVersions lib s")
  obtain r2 s2 where b: "u_requestKeyChange lib s1 = (r2, s2)"
    by (cases "u_requestKeyChange lib s1")
  obtain r3 s3 where c: "u_readPacket s2 = (r3, s3)" by (cases "u_readPacket s2")
  note i1 = u_handshake_steps_io(1) [OF a]
  note i2 = io_ext_trans [OF i1 u_handshake_steps_io(2) [OF b]]
  note i3 = io_ext_trans [OF i2 u_readPacket_io [OF c]]
  from assms a b c have "s' = s1 \<or> s' = s2 \<or> s' = s3"
    by (auto simp: clientHandshakeNoAuth_def
        split: if_splits option.splits sum.splits list.splits)
  with i1 i2 i3 show ?thesis by auto
qed

lemma newDownstream_io:
  "newDownstream lib hs s = (r, s') \<Longrightarrow> io_ext (log s) (log s')"
  by (auto simp: newDownstream_def split: prod.splits option.splits
      dest!: serverHandshakeNoAuth_io intro!: io_ext_snoc2)

lemma newUpstream_io:
  "newUpstream lib s = (r, s') \<Longrightarrow> io_ext (log s) (log s')"
  by (auto simp: newUpstream_def split: prod.splits option.splits
      dest!: clientHandshakeNoAuth_io intro!: io_ext_snoc2)

lemma challenge_turn_io:
  assumes "challenge_turn d = (r, d')"
  shows "io_ext (log d) (log d')"
proof -
  obtain r1 d1 where
    w: "d_writePacket (Marshal_userAuthFailureMsg [''keyboard-interactive''] False) d = (r1, d1)"
    by (cases "d_writePacket (Marshal_userAuthFailureMsg [''keyboard-interactive''] False) d")
  obtain r2 d2 where n: "nextAuthMsg d1 = (r2, d2)" by (cases "nextAuthMsg d1")
  from assms w n have "d' = d1 \<or> d' = d2"
    by (auto simp: challenge_turn_def split: option.splits sum.splits if_splits)
  with d_writePacket_io [OF w] nextAuthMsg_io [OF n] show ?thesis
    using io_ext_trans by blast
qed

lemma challenge_loop_io:
  "challenge_loop d = (r, d') \<Longrightarrow> io_ext (log d) (log d')"
proof (induction d rule: challenge_loop.induct)
  case (1 d)
  obtain res d1 where t: "challenge_turn d = (res, d1)" by (cases "challenge_turn d")
  note i1 = challenge_turn_io [OF t]
  show ?case
  proof (cases res)
    case (Inl x)
    with t "1.prems" have "d1 = d'"
      by (subst (asm) challenge_loop.simps) simp
    with i1 show ?thesis by simp
  next
    case (Inr u)
    with t "1.prems" have "challenge_loop d1 = (r, d')"
      by (subst (asm) challenge_loop.simps) simp
    from "1.IH" [OF t [symmetric] Inr this] i1 show ?thesis
      by (rule io_ext_trans [rotated])
  qed
qed

lemma additionalChallenge_block_log:
  assumes "additionalChallenge_block piper d = (res, d')"
  shows "(AdditionalChallenge piper = None \<and> res = None \<and> d' = d)
       \<or> (AdditionalChallenge piper \<noteq> None \<and> res \<noteq> None \<and> io_ext (log d) (log d'))
       \<or> (AdditionalChallenge piper \<noteq> None
            \<and> (\<exists>l ok err. io_ext (log d) l \<and> log d' = l @ [Called_AdditionalChallenge ok err]
                  \<and> (res = None \<longleftrightarrow> ok \<and> err = None)))"
proof (cases "AdditionalChallenge piper")
  case None
  with assms show ?thesis by (simp add: additionalChallenge_block_def)
next
  case (Some f)
  obtain r1 d1 where l: "challenge_loop d = (r1, d1)" by (cases "challenge_loop d")
  note i1 = challenge_loop_io [OF l]
  show ?thesis
  proof (cases r1)
    case (Some e)
    with assms l \<open>AdditionalChallenge piper = Some f\<close> i1 show ?thesis
      by (auto simp: additionalChallenge_block_def)
  next
    case None
    obtain ok err c where f: "f (downstream d1) = ((ok, err), c)"
      by (cases "f (downstream d1)") auto
    from assms l None \<open>AdditionalChallenge piper = Some f\<close> f
    have "log d' = log d1 @ [Called_AdditionalChallenge ok err]
            \<and> (res = None \<longleftrightarrow> ok \<and> err = None)"
      by (auto simp: additionalChallenge_block_def Let_def split: option.splits if_splits)
    with i1 \<open>AdditionalChallenge piper = Some f\<close> show ?thesis by blast
  qed
qed

lemma connectUpstream_log:
  assumes "connectUpstream lib piper findUpstream userAuthReq d = (r, lg)"
  shows "\<exists>b. lg = log d @ Called_FindUpstream # b \<and> list_all is_io b"
proof -
  have base: "io_ext (log d @ [Called_FindUpstream]) lg"
  proof -
    obtain upconn mu err where f: "findUpstream (downstream d) = (upconn, mu, err)"
      by (cases "findUpstream (downstream d)")
    show ?thesis
    proof (cases "err = None \<and> upconn \<noteq> None")
      case False
      with assms f show ?thesis
        by (auto simp: connectUpstream_def Let_def split: option.splits)
    next
      case True
      then obtain uc where uc: "upconn = Some uc" "err = None" by auto
      let ?p = "\<lparr>log = log d @ [Called_FindUpstream], downstream = downstream d,
                 upstream = uc\<rparr>"
      let ?mu = "if mu = [] then user (downstream d) else mu"
      obtain r1 p0 where n: "newUpstream lib ?p = (r1, p0)" by (cases "newUpstream lib ?p")
      from newUpstream_io [OF n] have i1: "io_ext (log d @ [Called_FindUpstream]) (log p0)"
        by simp
      show ?thesis
      proof (cases r1)
        case (Some e)
        with assms f uc n i1 show ?thesis by (simp add: connectUpstream_def Let_def)
      next
        case None
        obtain r2 p1 where a: "pipeAuth lib piper ?mu userAuthReq p0 = (r2, p1)"
          by (cases "pipeAuth lib piper ?mu userAuthReq p0")
        note i2 = io_ext_trans [OF i1 pipeAuth_io [OF a]]
        from assms f uc n None a have "lg = log p1 \<or> lg = log p1 @ [Close Upstream]"
          by (auto simp: connectUpstream_def Let_def split: option.splits)
        with i2 show ?thesis by (auto intro: io_ext_snoc2)
      qed
    qed
  qed
  then show ?thesis by (auto simp: io_ext_def)
qed

section \<open>The calls of the callbacks in a session\<close>

text \<open>
  The log of a whole run of \<^verbatim>\<open>NewSSHPiperConn\<close> has one of four shapes: no call of a
  callback at all; a call of the additional challenge that did not pass; without a
  challenge configured, one call of \<^verbatim>\<open>FindUpstream\<close>; with one configured, the call
  that passed followed at once by the one call of \<^verbatim>\<open>FindUpstream\<close>.
\<close>

lemma is_io_no_callback:
  assumes "list_all is_io l"
  shows "Called_FindUpstream \<notin> set l" "Called_AdditionalChallenge ok err \<notin> set l"
    "filter (\<lambda>e. e = Called_FindUpstream) l = []"
  using assms by (induction l) (auto simp: list_all_iff)

lemma io_ext_Nil: "io_ext [] l \<longleftrightarrow> list_all is_io l"
  by (simp add: io_ext_def)

lemma io_ext_list_all: "io_ext a b \<Longrightarrow> list_all is_io a \<Longrightarrow> list_all is_io b"
  by (auto simp: io_ext_def)

lemma NewSSHPiperConn_log_shape:
  assumes "NewSSHPiperConn lib conn piper = (r, lg)"
  shows "list_all is_io lg
       \<or> (AdditionalChallenge piper \<noteq> None
            \<and> (\<exists>a b ok err. lg = a @ Called_AdditionalChallenge ok err # b
                  \<and> list_all is_io a \<and> list_all is_io b \<and> \<not> (ok \<and> err = None)))
       \<or> (AdditionalChallenge piper = None
            \<and> (\<exists>a b. lg = a @ Called_FindUpstream # b \<and> list_all is_io a \<and> list_all is_io b))
       \<or> (AdditionalChallenge piper \<noteq> None
            \<and> (\<exists>a b. lg = a @ Called_AdditionalChallenge True None # Called_FindUpstream # b
                  \<and> list_all is_io a \<and> list_all is_io b))"
proof (cases "FindUpstream piper")
  case None
  with assms show ?thesis by (simp add: NewSSHPiperConn_def)
next
  case (Some findUpstream)
  obtain r0 d where nd: "newDownstream lib (hostKeys piper) \<lparr>log = [], downstream = conn\<rparr>
                           = (r0, d)"
    by (cases "newDownstream lib (hostKeys piper) \<lparr>log = [], downstream = conn\<rparr>")
  from newDownstream_io [OF nd] have i0: "list_all is_io (log d)"
    by (simp add: io_ext_Nil)
  show ?thesis
  proof (cases r0)
    case (Some e)
    with assms \<open>FindUpstream piper = Some findUpstream\<close> nd i0 show ?thesis
      by (simp add: NewSSHPiperConn_def)
  next
    case None
    obtain r1 d1 where n: "nextAuthMsg d = (r1, d1)" by (cases "nextAuthMsg d")
    from nextAuthMsg_io [OF n] i0 have i1: "list_all is_io (log d1)"
      by (rule io_ext_list_all)
    show ?thesis
    proof (cases r1)
      case (Inl e)
      with assms \<open>FindUpstream piper = Some findUpstream\<close> nd None n i1 show ?thesis
        by (auto simp: NewSSHPiperConn_def)
    next
      case (Inr userAuthReq)
      let ?d2 = "d1\<lparr>downstream := (downstream d1)\<lparr>user := User userAuthReq\<rparr>\<rparr>"
      obtain res d3 where b: "additionalChallenge_block piper ?d2 = (res, d3)"
        by (cases "additionalChallenge_block piper ?d2")
      note blk = additionalChallenge_block_log [OF b]
      show ?thesis
      proof (cases res)
        case (Some e)
        with assms \<open>FindUpstream piper = Some findUpstream\<close> nd None n Inr b
        have lg: "lg = log d3 @ [Close Downstream]"
          by (auto simp: NewSSHPiperConn_def Let_def)
        from blk Some
        consider (quiet) "AdditionalChallenge piper \<noteq> None" "io_ext (log ?d2) (log d3)"
          | (failed) l ok err where "AdditionalChallenge piper \<noteq> None" "io_ext (log ?d2) l"
              "log d3 = l @ [Called_AdditionalChallenge ok err]" "\<not> (ok \<and> err = None)"
          by auto
        then show ?thesis
        proof cases
          case quiet
          with i1 have "list_all is_io (log d3)" by (auto dest: io_ext_list_all)
          with lg show ?thesis by simp
        next
          case failed
          with i1 have il: "list_all is_io l" by (auto dest: io_ext_list_all)
          have "lg = l @ Called_AdditionalChallenge ok err # [Close Downstream]"
            using failed(3) lg by simp
          moreover have "list_all is_io [Close Downstream]" by simp
          ultimately have "\<exists>a b ok err. lg = a @ Called_AdditionalChallenge ok err # b
                  \<and> list_all is_io a \<and> list_all is_io b \<and> \<not> (ok \<and> err = None)"
            using il failed(4) by blast
          with failed(1) show ?thesis by blast
        qed
      next
        case None
        obtain r' lg' where c: "connectUpstream lib piper findUpstream userAuthReq d3 = (r', lg')"
          by (cases "connectUpstream lib piper findUpstream userAuthReq d3")
        from connectUpstream_log [OF c] obtain t where
          t: "lg' = log d3 @ Called_FindUpstream # t" "list_all is_io t" by blast
        from assms \<open>FindUpstream piper = Some findUpstream\<close> nd \<open>r0 = None\<close> n Inr b None c
        have "lg = lg' \<or> lg = lg' @ [Close Downstream]"
          by (auto simp: NewSSHPiperConn_def Let_def split: sum.splits)
        then have "lg = log d3 @ Called_FindUpstream # t
                     \<or> lg = log d3 @ Called_FindUpstream # (t @ [Close Downstream])"
          using t(1) by simp
        moreover have "list_all is_io (t @ [Close Downstream])" using t(2) by simp
        ultimately obtain t' where
          t': "lg = log d3 @ Called_FindUpstream # t'" "list_all is_io t'"
          using t(2) by blast
        from blk None
        consider (unset) "AdditionalChallenge piper = None" "d3 = ?d2"
          | (passed) l where "AdditionalChallenge piper \<noteq> None" "io_ext (log ?d2) l"
              "log d3 = l @ [Called_AdditionalChallenge True None]"
          by auto
        then show ?thesis
        proof cases
          case unset
          then have "log d3 = log d1" by simp
          with i1 t' have "\<exists>a b. lg = a @ Called_FindUpstream # b
                             \<and> list_all is_io a \<and> list_all is_io b"
            by metis
          with unset(1) show ?thesis by blast
        next
          case passed
          with i1 have il: "list_all is_io l" by (auto dest: io_ext_list_all)
          have "lg = l @ Called_AdditionalChallenge True None # Called_FindUpstream # t'"
            using passed(3) t'(1) by simp
          with il t'(2) have "\<exists>a b. lg = a @ Called_AdditionalChallenge True None
                                   # Called_FindUpstream # b
                  \<and> list_all is_io a \<and> list_all is_io b"
            by blast
          with passed(1) show ?thesis by blast
        qed
      qed
    qed
  qed
qed

subsection \<open>The example session, step by step\<close>

lemma Unmarshal_Marshal_userAuthRequestMsg:
  assumes "length (User m) < 4294967296" "length (Service m) < 4294967296"
    "length (Method m) < 4294967296"
  shows "Unmarshal_userAuthRequestMsg (Marshal_userAuthRequestMsg m) z = (None, m)"
  using assms
  by (simp add: Unmarshal_userAuthRequestMsg_def Marshal_userAuthRequestMsg_def
      parseString_marshalString)

lemma Unmarshal_serviceMsg_marshalString:
  "length svc < 4294967296 \<Longrightarrow> Unmarshal_serviceMsg t (t # marshalString svc) = Inr svc"
  using parseString_marshalString [of svc "[]"]
  by (simp add: Unmarshal_serviceMsg_def)

lemma nextAuthMsg_Marshal:
  assumes "rx (downstream s) = Marshal_userAuthRequestMsg m # ps"
    "length (User m) < 4294967296" "Service m = serviceSSH" "length (Method m) < 4294967296"
  shows "nextAuthMsg s =
           (Inr m, s\<lparr>downstream := (downstream s)\<lparr>rx := ps\<rparr>,
                     log := log s @ [Read Downstream (Marshal_userAuthRequestMsg m)]\<rparr>)"
  using assms
  by (simp add: nextAuthMsg_def d_readPacket_def t_readPacket_def
      Unmarshal_Marshal_userAuthRequestMsg serviceSSH_def)

lemma session_newDownstream:
  "newDownstream example_lib (hostKeys (session_piper passes))
     \<lparr>log = [], downstream = session_downstream\<rparr> = (None, session_after_handshake)"
  by (simp add: newDownstream_def serverHandshakeNoAuth_def session_piper_def
      d_exchangeVersions_def d_requestKeyChange_def example_lib_def d_readPacket_def
      t_readPacket_def d_writePacket_def t_writePacket_def session_downstream_def
      example_conn_def Marshal_serviceRequestMsg_def Unmarshal_serviceMsg_marshalString
      serviceUserAuth_def session_after_handshake_def)


lemma session_nextAuthMsg:
  "nextAuthMsg session_after_handshake = (Inr first_request, session_read_first)"
  by (subst nextAuthMsg_Marshal
        [where m = first_request and ps = "[Marshal_userAuthRequestMsg keyboard_request]"])
     (simp_all add: session_after_handshake_def first_request_def session_read_first_def)

lemma session_user:
  "session_read_first\<lparr>downstream := (downstream session_read_first)\<lparr>user := User first_request\<rparr>\<rparr>
     = session_before_challenge"
  by (simp add: session_before_challenge_def first_request_def)

lemma session_challenge:
  "additionalChallenge_block (session_piper passes) session_before_challenge
     = (if passes then None else Some ChallengeFailed, session_after_challenge passes)"
proof -
  let ?d3 = "\<lparr>log = log session_read_first
                  @ [Write Downstream
                       (Marshal_userAuthFailureMsg [''keyboard-interactive''] False)],
              downstream = session_downstream
                \<lparr>user := ''alice'', rx := [Marshal_userAuthRequestMsg keyboard_request],
                 wcap := 8\<rparr>\<rparr>"
  let ?d4 = "\<lparr>log = log session_read_first
                  @ [Write Downstream
                       (Marshal_userAuthFailureMsg [''keyboard-interactive''] False),
                     Read Downstream (Marshal_userAuthRequestMsg keyboard_request)],
              downstream = session_downstream\<lparr>user := ''alice'', rx := [], wcap := 8\<rparr>\<rparr>"
  have w: "d_writePacket (Marshal_userAuthFailureMsg [''keyboard-interactive''] False)
             session_before_challenge = (None, ?d3)"
    by (simp add: d_writePacket_def t_writePacket_def session_before_challenge_def
        session_read_first_def session_downstream_def example_conn_def)
  have n: "nextAuthMsg ?d3 = (Inr keyboard_request, ?d4)"
    by (subst nextAuthMsg_Marshal [where m = keyboard_request and ps = "[]"])
       (simp_all add: keyboard_request_def)
  have t: "challenge_turn session_before_challenge = (Inl None, ?d4)"
    by (simp add: challenge_turn_def w n) (simp add: keyboard_request_def)
  have l: "challenge_loop session_before_challenge = (None, ?d4)"
    by (subst challenge_loop.simps) (simp add: t)
  show ?thesis
    by (simp add: additionalChallenge_block_def session_piper_def l Let_def
        session_after_challenge_def)
qed

lemma session_connectUpstream:
  "\<exists>pipe. connectUpstream example_lib (session_piper True)
            (\<lambda>d. (Some session_upstream, ''bob'', None)) first_request
            (session_after_challenge True)
     = (Inr pipe,
        log (session_after_challenge True) @
          [Called_FindUpstream, VersionExchange Upstream, KeyChange Upstream,
           Read Upstream [msgNewKeys],
           Write Upstream (Marshal_serviceRequestMsg serviceUserAuth),
           Read Upstream (Marshal_serviceAcceptMsg serviceUserAuth),
           Write Upstream (Marshal_userAuthRequestMsg (first_request\<lparr>User := ''bob''\<rparr>)),
           Read Upstream [msgUserAuthSuccess],
           Write Downstream [msgUserAuthSuccess]])"
proof -
  let ?b = "log (session_after_challenge True)"
  let ?d = "downstream (session_after_challenge True)"
  let ?p0 = "\<lparr>log = ?b @ [Called_FindUpstream], downstream = ?d,
              upstream = session_upstream\<rparr>"
  let ?p1 = "\<lparr>log = ?b @ [Called_FindUpstream, VersionExchange Upstream, KeyChange Upstream,
                           Read Upstream [msgNewKeys]],
              downstream = ?d,
              upstream = session_upstream
                \<lparr>rx := [Marshal_serviceAcceptMsg serviceUserAuth, [msgUserAuthSuccess]]\<rparr>\<rparr>"
  let ?p2 = "\<lparr>log = ?b @ [Called_FindUpstream, VersionExchange Upstream, KeyChange Upstream,
                           Read Upstream [msgNewKeys],
                           Write Upstream (Marshal_serviceRequestMsg serviceUserAuth),
                           Read Upstream (Marshal_serviceAcceptMsg serviceUserAuth)],
              downstream = ?d,
              upstream = session_upstream\<lparr>rx := [[msgUserAuthSuccess]], wcap := 9\<rparr>\<rparr>"
  let ?fwd = "first_request\<lparr>User := ''bob''\<rparr>"
  have nu: "newUpstream example_lib ?p0 = (None, ?p1)"
    by (simp add: newUpstream_def clientHandshakeNoAuth_def u_exchangeVersions_def
        u_requestKeyChange_def example_lib_def u_readPacket_def t_readPacket_def
        session_upstream_def example_conn_def)
  have sa: "sendAuthReq ?p1 = (None, ?p2)"
    by (simp add: sendAuthReq_def u_writePacket_def u_readPacket_def t_writePacket_def
        t_readPacket_def session_upstream_def example_conn_def Marshal_serviceAcceptMsg_def
        Unmarshal_serviceMsg_marshalString serviceUserAuth_def)
  have pr: "processAuthMsg example_lib (session_piper True) ''bob'' first_request ?p2
              = (Inr (Some ?fwd), ?p2)"
    by (simp add: processAuthMsg_def first_request_def)
  have c: "0 < wcap (upstream ?p2)" "rx (upstream ?p2) = [msgUserAuthSuccess] # []"
    "[msgUserAuthSuccess] \<noteq> []" "0 < wcap (downstream ?p2)"
    by (simp_all add: session_after_challenge_def session_downstream_def example_conn_def)
  have fw: "\<exists>pipe. pipeAuth_forward ?fwd ?p2 = (Inl None, pipe)
            \<and> log pipe = log ?p2 @ [Write Upstream (Marshal_userAuthRequestMsg ?fwd),
                                     Read Upstream [msgUserAuthSuccess],
                                     Write Downstream [msgUserAuthSuccess]]"
    using pipeAuth_forward_steps [OF c, of ?fwd] by (simp add: Let_def)
  have "pipeAuth_turn example_lib (session_piper True) ''bob'' first_request ?p2
          = pipeAuth_forward ?fwd ?p2"
    by (simp only: pipeAuth_turn_def pr prod.case sum.case option.case)
  with fw have tu: "\<exists>pipe. pipeAuth_turn example_lib (session_piper True) ''bob'' first_request ?p2
              = (Inl None, pipe)
            \<and> log pipe = log ?p2 @ [Write Upstream (Marshal_userAuthRequestMsg ?fwd),
                                     Read Upstream [msgUserAuthSuccess],
                                     Write Downstream [msgUserAuthSuccess]]"
    by simp
  then obtain pipe where
    t1: "pipeAuth_turn example_lib (session_piper True) ''bob'' first_request ?p2
           = (Inl None, pipe)"
    and t2: "log pipe = log ?p2 @ [Write Upstream (Marshal_userAuthRequestMsg ?fwd),
                                     Read Upstream [msgUserAuthSuccess],
                                     Write Downstream [msgUserAuthSuccess]]"
    by blast
  have lp: "pipeAuth_loop example_lib (session_piper True) ''bob'' first_request ?p2
              = (None, pipe)"
    by (subst pipeAuth_loop.simps) (simp only: t1 prod.case sum.case)
  have pa: "pipeAuth example_lib (session_piper True) ''bob'' first_request ?p1 = (None, pipe)"
    by (simp only: pipeAuth_def sa lp prod.case option.case)
  have "connectUpstream example_lib (session_piper True)
            (\<lambda>d. (Some session_upstream, ''bob'', None)) first_request
            (session_after_challenge True) = (Inr pipe, log pipe)"
    by (simp add: connectUpstream_def Let_def nu pa)
  with t2 show ?thesis by simp
qed

lemma session_NewSSHPiperConn:
  "snd (NewSSHPiperConn example_lib session_downstream (session_piper True))
     = log (session_after_challenge True) @
          [Called_FindUpstream, VersionExchange Upstream, KeyChange Upstream,
           Read Upstream [msgNewKeys],
           Write Upstream (Marshal_serviceRequestMsg serviceUserAuth),
           Read Upstream (Marshal_serviceAcceptMsg serviceUserAuth),
           Write Upstream (Marshal_userAuthRequestMsg (first_request\<lparr>User := ''bob''\<rparr>)),
           Read Upstream [msgUserAuthSuccess],
           Write Downstream [msgUserAuthSuccess]]"
  "NewSSHPiperConn example_lib session_downstream (session_piper False)
     = (Inl ChallengeFailed, log (session_after_challenge False) @ [Close Downstream])"
proof -
  have fu: "FindUpstream (session_piper passes)
              = Some (\<lambda>d. (Some session_upstream, ''bob'', None))" for passes
    by (simp add: session_piper_def)
  obtain pipe where c: "connectUpstream example_lib (session_piper True)
            (\<lambda>d. (Some session_upstream, ''bob'', None)) first_request
            (session_after_challenge True)
     = (Inr pipe,
        log (session_after_challenge True) @
          [Called_FindUpstream, VersionExchange Upstream, KeyChange Upstream,
           Read Upstream [msgNewKeys],
           Write Upstream (Marshal_serviceRequestMsg serviceUserAuth),
           Read Upstream (Marshal_serviceAcceptMsg serviceUserAuth),
           Write Upstream (Marshal_userAuthRequestMsg (first_request\<lparr>User := ''bob''\<rparr>)),
           Read Upstream [msgUserAuthSuccess],
           Write Downstream [msgUserAuthSuccess]])"
    using session_connectUpstream by blast
  show "snd (NewSSHPiperConn example_lib session_downstream (session_piper True))
     = log (session_after_challenge True) @
          [Called_FindUpstream, VersionExchange Upstream, KeyChange Upstream,
           Read Upstream [msgNewKeys],
           Write Upstream (Marshal_serviceRequestMsg serviceUserAuth),
           Read Upstream (Marshal_serviceAcceptMsg serviceUserAuth),
           Write Upstream (Marshal_userAuthRequestMsg (first_request\<lparr>User := ''bob''\<rparr>)),
           Read Upstream [msgUserAuthSuccess],
           Write Downstream [msgUserAuthSuccess]]"
    by (simp only: NewSSHPiperConn_def fu option.case session_newDownstream prod.case
          session_nextAuthMsg sum.case Let_def session_user session_challenge if_True c)
       simp
  show "NewSSHPiperConn example_lib session_downstream (session_piper False)
     = (Inl ChallengeFailed, log (session_after_challenge False) @ [Close Downstream])"
    by (simp only: NewSSHPiperConn_def fu option.case session_newDownstream prod.case
          session_nextAuthMsg sum.case Let_def session_user session_challenge if_False)
qed

subsection \<open>\<^verbatim>\<open>FindUpstream\<close> and the additional challenge\<close>

text \<open>
  C8. In the log of every run of \<^verbatim>\<open>NewSSHPiperConn\<close>, whatever it returns:
  \<^verbatim>\<open>FindUpstream\<close> is called at most once; when an additional challenge is
  configured, a call of \<^verbatim>\<open>FindUpstream\<close> comes directly after the call of the
  challenge that returned true with no error, and nothing but events of the transport
  precedes and follows the pair; and when a call of the challenge returned false or an
  error, \<^verbatim>\<open>FindUpstream\<close> is not called at all.
\<close>

theorem NewSSHPiperConn_FindUpstream_once_after_challenge:
  assumes "NewSSHPiperConn lib conn piper = (r, lg)"
  shows "length (filter (\<lambda>e. e = Called_FindUpstream) lg) \<le> 1
       \<and> (AdditionalChallenge piper \<noteq> None \<and> Called_FindUpstream \<in> set lg \<longrightarrow>
            (\<exists>a b. lg = a @ Called_AdditionalChallenge True None # Called_FindUpstream # b
               \<and> list_all is_io a \<and> list_all is_io b))
       \<and> (\<forall>ok err. Called_AdditionalChallenge ok err \<in> set lg \<and> \<not> (ok \<and> err = None) \<longrightarrow>
            Called_FindUpstream \<notin> set lg)"
proof -
  from NewSSHPiperConn_log_shape [OF assms]
  consider (quiet) "list_all is_io lg"
    | (failed) a b ok err where "AdditionalChallenge piper \<noteq> None"
        "lg = a @ Called_AdditionalChallenge ok err # b" "list_all is_io a" "list_all is_io b"
        "\<not> (ok \<and> err = None)"
    | (plain) a b where "AdditionalChallenge piper = None"
        "lg = a @ Called_FindUpstream # b" "list_all is_io a" "list_all is_io b"
    | (passed) a b where "AdditionalChallenge piper \<noteq> None"
        "lg = a @ Called_AdditionalChallenge True None # Called_FindUpstream # b"
        "list_all is_io a" "list_all is_io b"
    by blast
  then show ?thesis
  proof cases
    case quiet
    then show ?thesis by (simp add: is_io_no_callback)
  next
    case failed
    have "Called_FindUpstream \<notin> set lg"
      using failed(2-4) by (simp add: is_io_no_callback)
    moreover have "filter (\<lambda>e. e = Called_FindUpstream) lg = []"
      using failed(2-4) by (simp add: is_io_no_callback)
    ultimately show ?thesis by simp
  next
    case plain
    have "filter (\<lambda>e. e = Called_FindUpstream) lg = [Called_FindUpstream]"
      using plain(2-4) by (simp add: is_io_no_callback)
    moreover have "\<forall>ok err. Called_AdditionalChallenge ok err \<notin> set lg"
      using plain(2-4) by (simp add: is_io_no_callback)
    ultimately show ?thesis using plain(1) by simp
  next
    case passed
    have f: "filter (\<lambda>e. e = Called_FindUpstream) lg = [Called_FindUpstream]"
      using passed(2-4) by (simp add: is_io_no_callback)
    have c: "\<forall>ok err. Called_AdditionalChallenge ok err \<in> set lg \<longrightarrow> ok \<and> err = None"
      using passed(2-4) by (simp add: is_io_no_callback)
    have "\<exists>a b. lg = a @ Called_AdditionalChallenge True None # Called_FindUpstream # b
               \<and> list_all is_io a \<and> list_all is_io b"
      using passed(2-4) by blast
    moreover have "\<forall>ok err. Called_AdditionalChallenge ok err \<in> set lg
                     \<and> \<not> (ok \<and> err = None) \<longrightarrow> Called_FindUpstream \<notin> set lg"
      using c by blast
    ultimately show ?thesis using f by simp
  qed
qed

theorem NewSSHPiperConn_FindUpstream_once_after_challenge_witness:
  "AdditionalChallenge (session_piper True) \<noteq> None
   \<and> Called_FindUpstream
       \<in> set (snd (NewSSHPiperConn example_lib session_downstream (session_piper True)))
   \<and> (\<exists>a b. snd (NewSSHPiperConn example_lib session_downstream (session_piper True))
               = a @ Called_AdditionalChallenge True None # Called_FindUpstream # b
            \<and> list_all is_io a \<and> list_all is_io b)
   \<and> length (filter (\<lambda>e. e = Called_FindUpstream)
               (snd (NewSSHPiperConn example_lib session_downstream (session_piper True)))) \<le> 1
   \<and> Called_AdditionalChallenge False None
       \<in> set (snd (NewSSHPiperConn example_lib session_downstream (session_piper False)))
   \<and> Called_FindUpstream
       \<notin> set (snd (NewSSHPiperConn example_lib session_downstream (session_piper False)))"
proof -
  let ?run = "\<lambda>passes. NewSSHPiperConn example_lib session_downstream (session_piper passes)"
  have h: "?run passes = (fst (?run passes), snd (?run passes))" for passes
    by simp
  have c: "AdditionalChallenge (session_piper True) \<noteq> None"
    "AdditionalChallenge (session_piper False) \<noteq> None"
    by (simp_all add: session_piper_def)
  have t: "Called_FindUpstream \<in> set (snd (?run True))"
    by (simp add: session_NewSSHPiperConn(1))
  have f: "Called_AdditionalChallenge False None \<in> set (snd (?run False))"
    by (simp add: session_NewSSHPiperConn(2) session_after_challenge_def)
  show ?thesis
    using NewSSHPiperConn_FindUpstream_once_after_challenge [OF h [of True]]
      NewSSHPiperConn_FindUpstream_once_after_challenge [OF h [of False]] c t f
    by blast
qed

end
